theory Spec2Isabelle
  imports Complex_Main "HOL-Library.Multiset"
begin

section \<open>Errors\<close>

text \<open>
  The exceptions the two source files can raise, as values. A result is
  \<open>py_error + 'a\<close> with \<open>Inl\<close> the raised exception; a loop that may run forever
  returns an \<open>option\<close> around it, \<open>None\<close> meaning that the call never returns.
  \<open>EmptyLoaderError\<close> is the name the specification gives to the failure on an empty
  loader; no source line raises it. \<open>RequestError\<close> stands for any exception of
  \<open>requests.get\<close> other than \<open>ConnectionError\<close>.
\<close>

datatype py_error =
    ZeroDivisionError
  | EmptyLoaderError
  | IndexError
  | KeyError
  | RuntimeError
  | ConnectionError
  | RequestError

section \<open>train.py: the ranking evaluator\<close>

subsection \<open>Data\<close>

text \<open>
  A triple is a row of the loader's tensor; \<open>torch.chunk(triples, chunks=3, dim=1)\<close>
  names its columns head, tail, relation, in this order.
\<close>

type_synonym triple = "nat \<times> nat \<times> nat"

definition head_of :: "triple \<Rightarrow> nat" where
  "head_of tr = fst tr"

definition tail_of :: "triple \<Rightarrow> nat" where
  "tail_of tr = fst (snd tr)"

definition rel_of :: "triple \<Rightarrow> nat" where
  "rel_of tr = snd (snd tr)"

text \<open>
  The dataset behind a loader: the number of its entities, its triples, whether it
  is a \<open>TextGraphDataset\<close> (the \<open>isinstance\<close> test of line 38) and its description
  lookup, which maps a batch of entity IDs to the padded token and mask tensors
  (type \<open>'d\<close>).
\<close>

record 'd dataset =
  num_ents :: nat
  triples :: "triple list"
  is_text :: bool
  get_entity_descriptions :: "nat list \<Rightarrow> 'd"

record 'd loader =
  dataset :: "'d dataset"
  batch_size :: nat

text \<open>
  The model as the evaluator sees it. \<open>params\<close> is the persistent state (relation
  embeddings, encoder weights, their gradient buffers); \<open>ent_emb\<close> is the text
  encoder, reading the parameters; \<open>energy_eval\<close> is the scoring function.

  Modelled from the spec: \<open>energy_eval\<close> of the graph module, which is not among the
  sources. The spec gives it as \<open>energy(head, tail, relation, optional entity
  embedding table) \<rightarrow> scalar score per row\<close>; the field is that score for one
  (head, tail, relation) under the table, and the calls of lines 66 and 67, which pass
  \<open>all_ents\<close> of shape \<open>(1, N)\<close> against a column of shape \<open>(B, 1)\<close>, broadcast it to
  a \<open>(B, N)\<close> matrix (\<open>heads_predictions\<close>, \<open>tails_predictions\<close> below).
\<close>

record ('p, 'd) model =
  num_entities :: nat
  dim_emb :: nat
  params :: 'p
  ent_emb :: "'p \<Rightarrow> 'd \<Rightarrow> real list list"
  energy_eval :: "'p \<Rightarrow> real list list option \<Rightarrow> nat \<Rightarrow> nat \<Rightarrow> nat \<Rightarrow> real"

subsection \<open>The loader\<close>

text \<open>
  Iterating a \<open>DataLoader\<close> built without \<open>shuffle\<close> and without \<open>drop_last\<close> (lines
  96, 100, 104) yields the dataset in order, \<open>batch_size\<close> rows at a time, the last
  batch holding what is left. \<open>DataLoader\<close> refuses \<open>batch_size = 0\<close> when it is
  constructed; the model yields no batch there.
\<close>

function batches :: "nat \<Rightarrow> 'a list \<Rightarrow> 'a list list" where
  "batches bs xs =
     (if xs = [] \<or> bs = 0 then [] else take bs xs # batches bs (drop bs xs))"
  by pat_completeness auto
termination
  by (relation "measure (\<lambda>(bs, xs). length xs)") auto

declare batches.simps [simp del]

definition iterate :: "'d loader \<Rightarrow> triple list list" where
  "iterate ld = batches (batch_size ld) (triples (dataset ld))"

subsection \<open>The embedding cache builder (lines 33 to 55)\<close>

text \<open>Python's \<open>xs[i:j]\<close> for \<open>0 \<le> i \<le> j\<close>: clipped at the end of the list.\<close>

definition slice :: "'a list \<Rightarrow> nat \<Rightarrow> nat \<Rightarrow> 'a list" where
  "slice xs i j = take (j - i) (drop i xs)"

text \<open>
  \<open>ent_emb[i:j] = rows\<close> on a table whose rows have \<open>d\<close> entries. torch raises
  \<open>RuntimeError\<close> when the shape of \<open>rows\<close> is not that of the slice (the model
  takes the encoder's contract, one row of \<open>d\<close> numbers per entity, as the only
  well-shaped value and does not model broadcasting of other shapes).
\<close>

definition slice_assign ::
  "real list list \<Rightarrow> nat \<Rightarrow> nat \<Rightarrow> nat \<Rightarrow> real list list \<Rightarrow> py_error + real list list" where
  "slice_assign tab d i j rows =
     (if length rows = length (slice tab i j) \<and> list_all (\<lambda>r. length r = d) rows
      then Inr (take i tab @ rows @ drop j tab)
      else Inl RuntimeError)"

text \<open>
  The \<open>while\<close> loop of lines 43 to 51. The state is \<open>idx\<close> and the table; \<open>writes\<close>
  is a ghost variable that records, for each slice assignment, the start index and the
  row indices it writes. With \<open>batch_size = 0\<close> the source never leaves the loop,
  so the function is partial.
\<close>

partial_function (option) cache_loop ::
  "('p, 'd) model \<Rightarrow> 'd loader \<Rightarrow> nat list \<Rightarrow> nat \<Rightarrow> real list list \<Rightarrow>
   (nat \<times> nat list) list \<Rightarrow> (py_error + real list list \<times> (nat \<times> nat list) list) option" where
  "cache_loop m ld all_ents idx tab writes =
     (if idx < num_entities m then
        (let batch_ents = slice all_ents idx (idx + batch_size ld);
             tokens_masks = get_entity_descriptions (dataset ld) batch_ents;
             batch_emb = ent_emb m (params m) tokens_masks
         in case slice_assign tab (dim_emb m) idx (idx + batch_size ld) batch_emb of
              Inl e \<Rightarrow> Some (Inl e)
            | Inr tab' \<Rightarrow>
                cache_loop m ld all_ents (idx + batch_size ld) tab'
                  (writes @ [(idx, slice [0..<length tab] idx (idx + batch_size ld))]))
      else Some (Inr (tab, writes)))"

declare cache_loop.simps [code]

text \<open>
  Lines 33 to 55: the table is built for a text dataset only; otherwise \<open>ent_emb\<close> is
  \<open>None\<close>. The second component is the ghost log of the writes.
\<close>

definition build_ent_emb ::
  "('p, 'd) model \<Rightarrow> 'd loader \<Rightarrow>
   (py_error + real list list option \<times> (nat \<times> nat list) list) option" where
  "build_ent_emb m ld =
     (let all_ents = [0..<num_entities m] in
      if is_text (dataset ld) then
        (case cache_loop m ld all_ents 0
                (replicate (num_entities m) (replicate (dim_emb m) 0)) [] of
           None \<Rightarrow> None
         | Some (Inl e) \<Rightarrow> Some (Inl e)
         | Some (Inr (tab, writes)) \<Rightarrow> Some (Inr (Some tab, writes)))
      else Some (Inr (None, [])))"

subsection \<open>The metrics\<close>

text \<open>
  Modelled from the spec: \<open>utils.hit_at_k\<close> and \<open>utils.mrr\<close>, whose module is not
  among the sources. The spec: the rank of a true entity is 1 + the count of
  candidates with strictly lower energy; Hits@10 is the fraction of true entities
  whose rank is at most 10; MRR is the mean of 1/rank. A call receives the rows of one
  batch (\<open>predictions\<close>, one row of candidate energies per true entity of
  \<open>ground_truth\<close>) and returns the fraction, or the mean, over these rows. A true
  entity that is not a column of its row is an \<open>IndexError\<close>. A loader never yields
  an empty batch, so the division by the number of rows is a division by a
  positive number.
\<close>

definition rank :: "real list \<Rightarrow> nat \<Rightarrow> nat" where
  "rank row t = 1 + length (filter (\<lambda>s. s < row ! t) row)"

definition in_range :: "real list list \<Rightarrow> nat list \<Rightarrow> bool" where
  "in_range predictions ground_truth =
     list_all (\<lambda>(row, t). t < length row) (zip predictions ground_truth)"

definition hit_at_k :: "real list list \<Rightarrow> nat list \<Rightarrow> nat \<Rightarrow> py_error + real" where
  "hit_at_k predictions ground_truth k =
     (if in_range predictions ground_truth
      then Inr (real (length (filter (\<lambda>(row, t). rank row t \<le> k) (zip predictions ground_truth)))
                / real (length ground_truth))
      else Inl IndexError)"

definition mrr :: "real list list \<Rightarrow> nat list \<Rightarrow> py_error + real" where
  "mrr predictions ground_truth =
     (if in_range predictions ground_truth
      then Inr (sum_list (map (\<lambda>(row, t). 1 / real (rank row t)) (zip predictions ground_truth))
                / real (length ground_truth))
      else Inl IndexError)"

subsection \<open>The ranking loop (lines 57 to 77)\<close>

text \<open>
  Lines 66 and 67: every entity of \<open>all_ents\<close> as head, with the tail and the
  relation of each triple of the batch; every entity as tail, with its head and
  relation. One row per triple.
\<close>

definition heads_predictions ::
  "('p, 'd) model \<Rightarrow> real list list option \<Rightarrow> nat list \<Rightarrow> triple list \<Rightarrow> real list list" where
  "heads_predictions m tab all_ents batch =
     map (\<lambda>tr. map (\<lambda>e. energy_eval m (params m) tab e (tail_of tr) (rel_of tr)) all_ents) batch"

definition tails_predictions ::
  "('p, 'd) model \<Rightarrow> real list list option \<Rightarrow> nat list \<Rightarrow> triple list \<Rightarrow> real list list" where
  "tails_predictions m tab all_ents batch =
     map (\<lambda>tr. map (\<lambda>e. energy_eval m (params m) tab (head_of tr) e (rel_of tr)) all_ents) batch"

text \<open>Lines 69 and 70: \<open>pred_ents\<close> and \<open>true_ents\<close> of one batch.\<close>

definition score_batch ::
  "('p, 'd) model \<Rightarrow> real list list option \<Rightarrow> triple list \<Rightarrow> real list list \<times> nat list" where
  "score_batch m tab batch =
     (let all_ents = [0..<num_entities m] in
      (tails_predictions m tab all_ents batch @ heads_predictions m tab all_ents batch,
       map tail_of batch @ map head_of batch))"

text \<open>
  The loop's variables. \<open>scored\<close> is a ghost variable: the \<open>(pred_ents, true_ents)\<close>
  of every batch that reached the metrics, in order.
\<close>

record eval_acc =
  acc_hits :: real
  acc_mrr :: real
  batch_count :: nat
  scored :: "(real list list \<times> nat list) list"

text \<open>
  Lines 58 to 74; \<open>i\<close> is the counter of \<open>enumerate\<close>, and the first test is the
  \<open>break\<close> of lines 59 and 60.
\<close>

fun ranking_loop ::
  "('p, 'd) model \<Rightarrow> real list list option \<Rightarrow> nat option \<Rightarrow> nat \<Rightarrow> triple list list \<Rightarrow>
   eval_acc \<Rightarrow> py_error + eval_acc" where
  "ranking_loop m tab max_num_batches i [] acc = Inr acc"
| "ranking_loop m tab max_num_batches i (b # bs) acc =
     (if max_num_batches = Some i then Inr acc
      else
        (case hit_at_k (fst (score_batch m tab b)) (snd (score_batch m tab b)) 10 of
           Inl e \<Rightarrow> Inl e
         | Inr h \<Rightarrow>
             (case mrr (fst (score_batch m tab b)) (snd (score_batch m tab b)) of
                Inl e \<Rightarrow> Inl e
              | Inr r \<Rightarrow>
                  ranking_loop m tab max_num_batches (i + 1) bs
                    (acc\<lparr>acc_hits := acc_hits acc + h,
                         acc_mrr := acc_mrr acc + r,
                         batch_count := batch_count acc + 1,
                         scored := scored acc @ [score_batch m tab b]\<rparr>))))"

text \<open>
  Lines 57 to 77: the loop from \<open>hits = 0.0\<close>, \<open>mrr = 0.0\<close>, \<open>batch_count = 0\<close>, then
  the two divisions. \<open>hits\<close> is a Python float, so \<open>hits / batch_count\<close> with
  \<open>batch_count = 0\<close> raises \<open>ZeroDivisionError\<close>.
\<close>

definition ranking_metrics ::
  "('p, 'd) model \<Rightarrow> real list list option \<Rightarrow> nat option \<Rightarrow> triple list list \<Rightarrow>
   py_error + eval_acc" where
  "ranking_metrics m tab max_num_batches bts =
     (case ranking_loop m tab max_num_batches 0 bts
             \<lparr>acc_hits = 0, acc_mrr = 0, batch_count = 0, scored = []\<rparr> of
        Inl e \<Rightarrow> Inl e
      | Inr acc \<Rightarrow>
          if batch_count acc = 0 then Inl ZeroDivisionError
          else Inr (acc\<lparr>acc_hits := acc_hits acc / real (batch_count acc),
                        acc_mrr := acc_mrr acc / real (batch_count acc)\<rparr>))"

subsection \<open>The evaluator (lines 26 to 81)\<close>

text \<open>
  What outlives a call: the model, torch's gradient mode, and the scalars sent to the
  experiment's run (name, value, step).
\<close>

record ('p, 'd) state =
  model :: "('p, 'd) model"
  grad_enabled :: bool
  run_log :: "(string \<times> real \<times> nat) list"

text \<open>
  The decorator \<open>@torch.no_grad()\<close>: the body runs with gradient tracking off, and
  the mode is restored when it returns.
\<close>

definition no_grad ::
  "(('p, 'd) state \<Rightarrow> (py_error + ('p, 'd) state) option) \<Rightarrow> ('p, 'd) state \<Rightarrow>
   (py_error + ('p, 'd) state) option" where
  "no_grad body st =
     (case body (st\<lparr>grad_enabled := False\<rparr>) of
        None \<Rightarrow> None
      | Some (Inl e) \<Rightarrow> Some (Inl e)
      | Some (Inr st') \<Rightarrow> Some (Inr (st'\<lparr>grad_enabled := grad_enabled st\<rparr>)))"

definition eval_body ::
  "'d loader \<Rightarrow> nat \<Rightarrow> string \<Rightarrow> nat option \<Rightarrow> ('p, 'd) state \<Rightarrow>
   (py_error + ('p, 'd) state) option" where
  "eval_body ld epoch prefix max_num_batches st =
     (case build_ent_emb (model st) ld of
        None \<Rightarrow> None
      | Some (Inl e) \<Rightarrow> Some (Inl e)
      | Some (Inr (tab, writes)) \<Rightarrow>
          (case ranking_metrics (model st) tab max_num_batches (iterate ld) of
             Inl e \<Rightarrow> Some (Inl e)
           | Inr acc \<Rightarrow>
               Some (Inr (st\<lparr>run_log := run_log st @
                    [(prefix @ ''_valid_mrr'', acc_mrr acc, epoch),
                     (prefix @ ''_valid_hits@10'', acc_hits acc, epoch)]\<rparr>))))"

definition eval_link_prediction ::
  "('p, 'd) state \<Rightarrow> 'd loader \<Rightarrow> nat \<Rightarrow> string \<Rightarrow> nat option \<Rightarrow>
   (py_error + ('p, 'd) state) option" where
  "eval_link_prediction st ld epoch prefix max_num_batches =
     no_grad (eval_body ld epoch prefix max_num_batches) st"

subsection \<open>The evaluator's effects on the model (lines 26 to 81)\<close>

text \<open>
  The definitions above take the encoder and the scoring function as functions of the
  parameters, which is what the spec says of them. In the source they are methods of
  a torch module, and a call of such a method (a forward pass) has two effects besides
  its value: the method may write the module, and, when gradient tracking is on, torch
  records the pass in the autograd graph. The definitions of this subsection follow the
  same lines of the source with both effects explicit, so that what the evaluator
  leaves behind can be stated. In the definitions above the gradient mode is only
  switched and restored; here it decides what a pass records. With methods that write
  nothing the two evaluators agree (\<open>eval_link_prediction_fx_agrees\<close>).

  The forward passes the evaluator makes: the encoder on a chunk of entity IDs (line
  49), the scoring of all heads and of all tails for a batch (lines 66 and 67).
\<close>

datatype fwd =
    Encode "nat list"
  | ScoreHeads "triple list"
  | ScoreTails "triple list"

text \<open>
  What outlives a call: the model with its parameters, torch's gradient mode, the
  autograd graph (the passes recorded so far) and the scalars sent to the run. The
  table \<open>ent_emb\<close> is a local variable of the function and no part of it.
\<close>

record ('p, 'd) world =
  w_model :: "('p, 'd) model"
  w_grad_enabled :: bool
  w_graph :: "fwd list"
  w_run_log :: "(string \<times> real \<times> nat) list"

text \<open>
  One forward pass \<open>f\<close>: the method writes the parameters (\<open>writes f\<close>, a parameter
  of the model like the methods themselves, whose code is not among the sources), and
  torch records the pass when the gradient mode is on.
\<close>

definition forward :: "(fwd \<Rightarrow> 'p \<Rightarrow> 'p) \<Rightarrow> fwd \<Rightarrow> ('p, 'd) world \<Rightarrow> ('p, 'd) world" where
  "forward writes f w =
     w\<lparr>w_model := (w_model w)\<lparr>params := writes f (params (w_model w))\<rparr>,
       w_graph := (if w_grad_enabled w then w_graph w @ [f] else w_graph w)\<rparr>"








section \<open>train.py: alignment training\<close>

subsection \<open>Entity summaries (lines 150 to 169)\<close>

text \<open>
  The summarizer: the hidden size of its encoder and its forward pass, from the token
  and mask tensors of a batch of descriptions to one row per description.
\<close>

record 'd summary_model =
  hidden_size :: nat
  summarize :: "'d \<Rightarrow> real list list"

text \<open>
  \<open>torch.empty\<close> allocates without initialising: the table holds whatever the
  allocator hands out, the parameter \<open>torch_empty\<close> (by number of rows and columns).
  The loop that would fill the table is commented out in the source (lines 159 to
  167, under \<open>FIXME\<close>), so the function returns the table as allocated; \<open>load_num\<close>
  and \<open>all_ents\<close> are computed and not used.
\<close>

definition get_entity_summaries ::
  "(nat \<Rightarrow> nat \<Rightarrow> real list list) \<Rightarrow> 'd summary_model \<Rightarrow> 'd dataset \<Rightarrow> real list list" where
  "get_entity_summaries torch_empty summarizer ds =
     (let emb_dim = hidden_size summarizer;
          load_num = (256 :: nat);
          all_ents = [0..<num_ents ds];
          ent_summaries = torch_empty (num_ents ds) emb_dim
      in ent_summaries)"

text \<open>
  The table the docstring (\<open>Load pretrained entity summaries\<close>) and the commented
  loop describe: row \<open>e\<close> is the summarizer's encoding of the description of
  entity \<open>e\<close>, computed \<open>load_num\<close> entities at a time.
\<close>

definition described_summaries :: "'d summary_model \<Rightarrow> 'd dataset \<Rightarrow> real list list" where
  "described_summaries summarizer ds =
     concat (map (\<lambda>batch_ents. summarize summarizer (get_entity_descriptions ds batch_ents))
               (batches 256 [0..<num_ents ds]))"

subsection \<open>The training loop (lines 172 to 232)\<close>

text \<open>
  The collaborators of the loop, none of them among the sources: the aligner's
  forward pass (parameters, description tensors of one entity, summaries), the
  gradient that \<open>loss.backward\<close> adds to the parameters' \<open>grad\<close> buffers for one
  batch (the loss of \<open>graph_model\<close> on the batch and the entity embedding), and the
  optimizer's step. \<open>'p\<close> is everything the optimizer updates (aligner and graph
  model parameters, Adam's moments), \<open>'g\<close> the gradient buffers, \<open>'b\<close> a batch of
  the triple loader.
\<close>

record ('p, 'g, 'd, 'b) trainer =
  aligner :: "'p \<Rightarrow> 'd \<Rightarrow> real list list \<Rightarrow> real list list"
  loss_grad :: "'p \<Rightarrow> 'b \<Rightarrow> real list list \<Rightarrow> 'g"
  opt_step :: "'p \<Rightarrow> 'g \<Rightarrow> 'p"

text \<open>
  The ghost trace of the loop: the aligner's call for entity \<open>i\<close>, the \<open>backward\<close>
  call on batch \<open>j\<close> of the pass for entity \<open>i\<close>, the optimizer's step and the
  zeroing of the gradients at the end of iteration \<open>i\<close>.
\<close>

datatype event = Align nat | Backward nat nat | Step nat | ZeroGrad nat

record ('p, 'g) train_state =
  t_params :: 'p
  t_grads :: 'g
  trace :: "event list"

text \<open>
  Lines 203 to 210, the pass over the triple loader for entity \<open>i\<close>: \<open>backward\<close>
  adds the batch's gradient to the buffers; nothing else is updated.
\<close>

fun triple_pass ::
  "('p, 'g :: monoid_add, 'd, 'b) trainer \<Rightarrow> real list list \<Rightarrow> nat \<Rightarrow> nat \<Rightarrow> 'b list \<Rightarrow>
   ('p, 'g) train_state \<Rightarrow> ('p, 'g) train_state" where
  "triple_pass tr ent_embs i j [] st = st"
| "triple_pass tr ent_embs i j (data # rest) st =
     triple_pass tr ent_embs i (j + 1) rest
       (st\<lparr>t_grads := t_grads st + loss_grad tr (t_params st) data ent_embs,
            trace := trace st @ [Backward i j]\<rparr>)"

text \<open>
  Lines 193 to 232, one iteration of the outer loop. The loader shuffles, so the
  batches of a pass depend on the pass: \<open>ld i\<close> is what the loader yields during
  iteration \<open>i\<close>. Lines 212 to 229 only read the gradients to print their extremes.
\<close>

definition train_entity ::
  "('p, 'g :: monoid_add, 'd, 'b) trainer \<Rightarrow> 'd dataset \<Rightarrow> (nat \<Rightarrow> 'b list) \<Rightarrow> real list list \<Rightarrow>
   nat \<Rightarrow> ('p, 'g) train_state \<Rightarrow> ('p, 'g) train_state" where
  "train_entity tr ds ld summaries i st =
     (let ent_id = [i];
          tokens_mask = get_entity_descriptions ds ent_id;
          ent_embs = aligner tr (t_params st) tokens_mask summaries;
          st1 = st\<lparr>trace := trace st @ [Align i]\<rparr>;
          st2 = triple_pass tr ent_embs i 0 (ld i) st1;
          st3 = st2\<lparr>t_params := opt_step tr (t_params st2) (t_grads st2),
                    trace := trace st2 @ [Step i]\<rparr>;
          st4 = st3\<lparr>t_grads := 0, trace := trace st3 @ [ZeroGrad i]\<rparr>
      in st4)"

fun entity_loop ::
  "('p, 'g :: monoid_add, 'd, 'b) trainer \<Rightarrow> 'd dataset \<Rightarrow> (nat \<Rightarrow> 'b list) \<Rightarrow> real list list \<Rightarrow>
   nat list \<Rightarrow> ('p, 'g) train_state \<Rightarrow> ('p, 'g) train_state" where
  "entity_loop tr ds ld summaries [] st = st"
| "entity_loop tr ds ld summaries (i # rest) st =
     entity_loop tr ds ld summaries rest (train_entity tr ds ld summaries i st)"

text \<open>
  \<open>train_linker\<close> from fresh parameters \<open>p0\<close>: no gradient has been computed yet
  (every \<open>grad\<close> is \<open>None\<close>), which the model writes as the zero of the buffers.
\<close>

definition train_linker ::
  "(nat \<Rightarrow> nat \<Rightarrow> real list list) \<Rightarrow> 'd summary_model \<Rightarrow> ('p, 'g :: monoid_add, 'd, 'b) trainer \<Rightarrow>
   'd dataset \<Rightarrow> (nat \<Rightarrow> 'b list) \<Rightarrow> 'p \<Rightarrow> ('p, 'g) train_state" where
  "train_linker torch_empty summarizer tr ds ld p0 =
     (let summaries = get_entity_summaries torch_empty summarizer ds
      in entity_loop tr ds ld summaries [0..<num_ents ds]
           \<lparr>t_params = p0, t_grads = 0, trace = []\<rparr>)"

section \<open>data/wikidata5m/fetch.py\<close>

subsection \<open>The network\<close>

text \<open>
  What one call of \<open>requests.get\<close> does: it returns a response, raises
  \<open>requests.exceptions.ConnectionError\<close>, or raises another exception.
\<close>

datatype 'r outcome = Response 'r | ConnError | OtherError

text \<open>
  The JSON bodies, as far as the script reads them. A key the script indexes
  without a test is an \<open>option\<close> here, and indexing it when it is absent is a
  \<open>KeyError\<close>. A dictionary that is only looked up is a map; \<open>pages\<close>, which is
  iterated, is the list of its values in iteration order.
\<close>

record sitelink =
  sl_title :: "string option"

record ent_data =
  has_missing :: bool
  sitelinks :: "(string \<rightharpoonup> sitelink) option"

record page =
  page_title :: "string option"
  page_extract :: "string option"

record redirect =
  r_from :: "string option"
  r_to :: "string option"

record query =
  pages :: "page list option"
  redirects :: "redirect list option"

record 'c body =
  entities :: "(string \<rightharpoonup> ent_data) option"
  query :: "query option"
  continue :: "'c option"

text \<open>
  The requests of the script: the Wikidata query with its \<open>ids\<close>, the Wikipedia
  query with its \<open>titles\<close>, and the continuation of a Wikipedia query, with the
  \<open>continue\<close> object of the previous body.
\<close>

datatype 'c request =
    Wikidata string
  | Wikipedia string
  | Continuation 'c string

text \<open>
  The network answers the \<open>n\<close>-th call of \<open>requests.get\<close> of the run: the same
  request may fail at one call and succeed at the next.
\<close>

type_synonym 'c network = "nat \<Rightarrow> 'c request \<Rightarrow> 'c body outcome"

subsection \<open>get_retry (lines 41 to 49)\<close>

text \<open>
  \<open>n\<close> counts the calls of \<open>requests.get\<close> made so far and \<open>slept\<close> adds up the
  arguments of \<open>time.sleep\<close>; both are returned with the response. Only
  \<open>ConnectionError\<close> is caught. The loop has no bound, so the function is partial.
\<close>

partial_function (option) get_retry ::
  "'c network \<Rightarrow> 'c request \<Rightarrow> nat \<Rightarrow> nat \<Rightarrow> nat \<Rightarrow> (py_error + 'c body \<times> nat \<times> nat) option" where
  "get_retry net req delay n slept =
     (case net n req of
        Response r \<Rightarrow> Some (Inr (r, n + 1, slept))
      | ConnError \<Rightarrow> get_retry net req delay (n + 1) (slept + delay)
      | OtherError \<Rightarrow> Some (Inl RequestError))"

declare get_retry.simps [code]

subsection \<open>get_extracts_from_pages (lines 22 to 38)\<close>

definition newline :: char where
  "newline = CHR 0x0A"

text \<open>\<open>s.replace('\n', ' ')\<close>\<close>

definition replace_newlines :: "string \<Rightarrow> string" where
  "replace_newlines s = map (\<lambda>c. if c = newline then CHR '' '' else c) s"

fun get_extracts_loop ::
  "page list \<Rightarrow> (string \<rightharpoonup> string) \<Rightarrow> py_error + (string \<rightharpoonup> string)" where
  "get_extracts_loop [] extracts = Inr extracts"
| "get_extracts_loop (pg # rest) extracts =
     (case page_extract pg of
        None \<Rightarrow> get_extracts_loop rest extracts
      | Some ex \<Rightarrow>
          (let text = replace_newlines ex in
           case page_title pg of
             None \<Rightarrow> Inl KeyError
           | Some t \<Rightarrow> get_extracts_loop rest (extracts(t \<mapsto> text))))"

definition get_extracts_from_pages :: "page list \<Rightarrow> py_error + (string \<rightharpoonup> string)" where
  "get_extracts_from_pages pgs = get_extracts_loop pgs Map.empty"

subsection \<open>retrieve_pages (lines 52 to 129)\<close>

definition MAX_ENTITIES :: nat where
  "MAX_ENTITIES = 50"

text \<open>\<open>sep.join(xs)\<close>\<close>

fun join :: "string \<Rightarrow> string list \<Rightarrow> string" where
  "join sep [] = []"
| "join sep [x] = x"
| "join sep (x # y # ys) = x @ sep @ join sep (y # ys)"

text \<open>\<open>line.rstrip('\n')\<close>\<close>

definition rstrip_newline :: "string \<Rightarrow> string" where
  "rstrip_newline line = rev (dropWhile (\<lambda>c. c = newline) (rev line))"

text \<open>
  The variables of the run that outlive a chunk: the strings written to the two
  output files, in order, the two counters, and the number of calls of
  \<open>requests.get\<close> so far.
\<close>

record fetch_state =
  out_file :: "string list"
  no_wifi_file :: "string list"
  fetched_count :: nat
  no_wiki_count :: nat
  calls :: nat

text \<open>
  Lines 80 to 88: the entities of the chunk that have an English Wikipedia page go to
  \<open>ent_pages\<close> with the page's title, the others to the no-wiki file.
\<close>

fun link_loop ::
  "(string \<rightharpoonup> ent_data) \<Rightarrow> string list \<Rightarrow> (string \<times> string) list \<Rightarrow> fetch_state \<Rightarrow>
   py_error + (string \<times> string) list \<times> fetch_state" where
  "link_loop link_data [] ent_pages st = Inr (ent_pages, st)"
| "link_loop link_data (e # rest) ent_pages st =
     (case link_data e of
        None \<Rightarrow> Inl KeyError
      | Some ent \<Rightarrow>
          if has_missing ent then
            link_loop link_data rest ent_pages
              (st\<lparr>no_wiki_count := no_wiki_count st + 1,
                   no_wifi_file := no_wifi_file st @ [e @ [newline]]\<rparr>)
          else
            (case sitelinks ent of
               None \<Rightarrow> Inl KeyError
             | Some links \<Rightarrow>
                 (case links ''enwiki'' of
                    None \<Rightarrow>
                      link_loop link_data rest ent_pages
                        (st\<lparr>no_wiki_count := no_wiki_count st + 1,
                             no_wifi_file := no_wifi_file st @ [e @ [newline]]\<rparr>)
                  | Some link \<Rightarrow>
                      (case sl_title link of
                         None \<Rightarrow> Inl KeyError
                       | Some t \<Rightarrow> link_loop link_data rest (ent_pages @ [(e, t)]) st))))"

text \<open>Line 102: the dictionary comprehension over the redirects.\<close>

fun redirect_dict ::
  "redirect list \<Rightarrow> (string \<rightharpoonup> string) \<Rightarrow> py_error + (string \<rightharpoonup> string)" where
  "redirect_dict [] d = Inr d"
| "redirect_dict (r # rest) d =
     (case r_from r of
        None \<Rightarrow> Inl KeyError
      | Some f \<Rightarrow>
          (case r_to r of
             None \<Rightarrow> Inl KeyError
           | Some t \<Rightarrow> redirect_dict rest (d(f \<mapsto> t))))"

text \<open>
  Lines 105 to 109: the continuation requests, made with \<open>requests.get\<close> itself, so
  that a connection error is raised to the caller. The server decides when the
  loop ends, so the function is partial.
\<close>

partial_function (option) continue_loop ::
  "'c network \<Rightarrow> string \<Rightarrow> 'c body \<Rightarrow> (string \<rightharpoonup> string) \<Rightarrow> nat \<Rightarrow>
   (py_error + (string \<rightharpoonup> string) \<times> nat) option" where
  "continue_loop net titles_param text_data extracts n =
     (case continue text_data of
        None \<Rightarrow> Some (Inr (extracts, n))
      | Some c \<Rightarrow>
          (case net n (Continuation c titles_param) of
             ConnError \<Rightarrow> Some (Inl ConnectionError)
           | OtherError \<Rightarrow> Some (Inl RequestError)
           | Response text_data' \<Rightarrow>
               (case query text_data' of
                  None \<Rightarrow> Some (Inl KeyError)
                | Some q \<Rightarrow>
                    (case pages q of
                       None \<Rightarrow> Some (Inl KeyError)
                     | Some pgs \<Rightarrow>
                         (case get_extracts_from_pages pgs of
                            Inl e \<Rightarrow> Some (Inl e)
                          | Inr new_extracts \<Rightarrow>
                              continue_loop net titles_param text_data'
                                (extracts ++ new_extracts) (n + 1))))))"

declare continue_loop.simps [code]

text \<open>Lines 112 to 124: one line per pair of \<open>ent_pages\<close>, in one of the two files.\<close>

fun save_loop ::
  "(string \<rightharpoonup> string) \<Rightarrow> (string \<rightharpoonup> string) \<Rightarrow> (string \<times> string) list \<Rightarrow> fetch_state \<Rightarrow>
   fetch_state" where
  "save_loop redir_titles extracts [] st = st"
| "save_loop redir_titles extracts ((entity, title0) # rest) st =
     (let title1 = (case redir_titles title0 of Some t \<Rightarrow> t | None \<Rightarrow> title0) in
      case extracts title1 of
        Some text \<Rightarrow>
          save_loop redir_titles extracts rest
            (st\<lparr>out_file := out_file st @ [entity @ '' '' @ title1 @ '': '' @ text @ [newline]],
                 fetched_count := fetched_count st + 1\<rparr>)
      | None \<Rightarrow>
          save_loop redir_titles extracts rest
            (st\<lparr>no_wiki_count := no_wiki_count st + 1,
                 no_wifi_file := no_wifi_file st @ [entity @ [newline]]\<rparr>))"

text \<open>
  Lines 97 to 124: what is done with the body \<open>text_data\<close> of the Wikipedia
  response; \<open>redirects\<close> is read from this first body only.
\<close>

definition read_redirects :: "query \<Rightarrow> py_error + (string \<rightharpoonup> string)" where
  "read_redirects q =
     (case redirects q of
        None \<Rightarrow> Inr Map.empty
      | Some [] \<Rightarrow> Inr Map.empty
      | Some (r # rs) \<Rightarrow> redirect_dict (r # rs) Map.empty)"

definition save_chunk ::
  "'c network \<Rightarrow> string \<Rightarrow> 'c body \<Rightarrow> (string \<times> string) list \<Rightarrow> fetch_state \<Rightarrow>
   (py_error + fetch_state) option" where
  "save_chunk net titles_param text_data ent_pages st =
     (case query text_data of
        None \<Rightarrow> Some (Inl KeyError)
      | Some q \<Rightarrow>
          (case pages q of
             None \<Rightarrow> Some (Inl KeyError)
           | Some pgs \<Rightarrow>
               (case get_extracts_from_pages pgs of
                  Inl e \<Rightarrow> Some (Inl e)
                | Inr extracts \<Rightarrow>
                    (case read_redirects q of
                       Inl e \<Rightarrow> Some (Inl e)
                     | Inr redir_titles \<Rightarrow>
                         (case continue_loop net titles_param text_data extracts (calls st) of
                            None \<Rightarrow> None
                          | Some (Inl e) \<Rightarrow> Some (Inl e)
                          | Some (Inr (extracts', n)) \<Rightarrow>
                              Some (Inr (save_loop redir_titles extracts' ent_pages
                                           (st\<lparr>calls := n\<rparr>))))))))"

text \<open>
  Lines 71 to 124: the body of the loop over the chunks, for the chunk \<open>to_fetch\<close>.
  Both requests go through \<open>get_retry\<close> with its default delay of 5.
\<close>

definition fetch_chunk ::
  "'c network \<Rightarrow> string list \<Rightarrow> fetch_state \<Rightarrow> (py_error + fetch_state) option" where
  "fetch_chunk net to_fetch st =
     (let ids_param = join ''|'' to_fetch in
      case get_retry net (Wikidata ids_param) 5 (calls st) 0 of
        None \<Rightarrow> None
      | Some (Inl e) \<Rightarrow> Some (Inl e)
      | Some (Inr (r, n1, slept1)) \<Rightarrow>
          (case entities r of
             None \<Rightarrow> Some (Inl KeyError)
           | Some link_data \<Rightarrow>
               (case link_loop link_data to_fetch [] st of
                  Inl e \<Rightarrow> Some (Inl e)
                | Inr (ent_pages, st1) \<Rightarrow>
                    (let titles = map snd ent_pages;
                         titles_param = join ''|'' titles in
                     case get_retry net (Wikipedia titles_param) 5 n1 0 of
                       None \<Rightarrow> None
                     | Some (Inl e) \<Rightarrow> Some (Inl e)
                     | Some (Inr (text_data, n2, slept2)) \<Rightarrow>
                         save_chunk net titles_param text_data ent_pages
                           (st1\<lparr>calls := n2\<rparr>)))))"

text \<open>Line 70: the loop over the chunks \<open>entities[i:i + MAX_ENTITIES]\<close>.\<close>

fun chunk_loop ::
  "'c network \<Rightarrow> string list list \<Rightarrow> fetch_state \<Rightarrow> (py_error + fetch_state) option" where
  "chunk_loop net [] st = Some (Inr st)"
| "chunk_loop net (to_fetch # rest) st =
     (case fetch_chunk net to_fetch st of
        None \<Rightarrow> None
      | Some (Inl e) \<Rightarrow> Some (Inl e)
      | Some (Inr st') \<Rightarrow> chunk_loop net rest st')"

text \<open>
  \<open>retrieve_pages\<close> on the lines of the input file, as Python's iteration over the
  file yields them. The result holds what was written to \<open>descriptions-<input>\<close>
  (\<open>out_file\<close>) and to \<open>no-wiki-<input>\<close> (\<open>no_wifi_file\<close>), both opened for writing
  at lines 66 and 67, and the two counters printed at the end.
\<close>

definition retrieve_pages :: "'c network \<Rightarrow> string list \<Rightarrow> (py_error + fetch_state) option" where
  "retrieve_pages net file_lines =
     (let entities = map rstrip_newline file_lines in
      chunk_loop net (batches MAX_ENTITIES entities)
        \<lparr>out_file = [], no_wifi_file = [], fetched_count = 0, no_wiki_count = 0, calls = 0\<rparr>)"

section \<open>Auxiliary notions for the statements\<close>

text \<open>
  The batches that reach the metrics when the loop starts at counter \<open>i\<close>: all of
  them without \<open>max_num_batches\<close>, and those before the \<open>break\<close> with it.
\<close>

definition visited :: "nat option \<Rightarrow> nat \<Rightarrow> 'a list \<Rightarrow> 'a list" where
  "visited max_num_batches i bts =
     (case max_num_batches of
        None \<Rightarrow> bts
      | Some k \<Rightarrow> if i \<le> k then take (k - i) bts else bts)"

text \<open>
  The two substitutions of a triple: the energies of every entity of
  \<open>[0, num_entities)\<close> as tail (head and relation fixed) with the true tail, and
  as head (tail and relation fixed) with the true head.
\<close>

definition tail_sub :: "('p, 'd) model \<Rightarrow> real list list option \<Rightarrow> triple \<Rightarrow> real list \<times> nat" where
  "tail_sub m tab tr =
     (map (\<lambda>e. energy_eval m (params m) tab (head_of tr) e (rel_of tr)) [0..<num_entities m],
      tail_of tr)"

definition head_sub :: "('p, 'd) model \<Rightarrow> real list list option \<Rightarrow> triple \<Rightarrow> real list \<times> nat" where
  "head_sub m tab tr =
     (map (\<lambda>e. energy_eval m (params m) tab e (tail_of tr) (rel_of tr)) [0..<num_entities m],
      head_of tr)"

text \<open>All head and tail substitutions of a list of triples.\<close>

definition substitutions ::
  "('p, 'd) model \<Rightarrow> real list list option \<Rightarrow> triple list \<Rightarrow> (real list \<times> nat) list" where
  "substitutions m tab trs = concat (map (\<lambda>tr. [tail_sub m tab tr, head_sub m tab tr]) trs)"

text \<open>
  The metrics in the spec's words, over a list of substitutions: the fraction of
  true entities whose rank is at most \<open>k\<close>, and the mean of 1/rank.
\<close>

definition hit_count :: "nat \<Rightarrow> (real list \<times> nat) list \<Rightarrow> nat" where
  "hit_count k subs = length (filter (\<lambda>(row, t). rank row t \<le> k) subs)"

definition rr_sum :: "(real list \<times> nat) list \<Rightarrow> real" where
  "rr_sum subs = sum_list (map (\<lambda>(row, t). 1 / real (rank row t)) subs)"

definition overall_hits_at :: "nat \<Rightarrow> (real list \<times> nat) list \<Rightarrow> real" where
  "overall_hits_at k subs = real (hit_count k subs) / real (length subs)"

definition overall_mrr :: "(real list \<times> nat) list \<Rightarrow> real" where
  "overall_mrr subs = rr_sum subs / real (length subs)"

text \<open>The catalog invariant: heads and tails are entities of the model.\<close>

definition triples_in_range :: "('p, 'd) model \<Rightarrow> triple list \<Rightarrow> bool" where
  "triples_in_range m trs =
     list_all (\<lambda>tr. head_of tr < num_entities m \<and> tail_of tr < num_entities m) trs"

text \<open>The (row, true entity) pairs that reached the metrics.\<close>

definition pairs_scored :: "eval_acc \<Rightarrow> (real list \<times> nat) list" where
  "pairs_scored acc = concat (map (\<lambda>pt. zip (fst pt) (snd pt)) (scored acc))"

text \<open>
  The encoder's contract on the chunks the builder encodes: one row of \<open>dim\<close>
  numbers per entity of the chunk.
\<close>

definition encoder_ok :: "('p, 'd) model \<Rightarrow> 'd loader \<Rightarrow> bool" where
  "encoder_ok m ld =
     list_all (\<lambda>ids. length (ent_emb m (params m) (get_entity_descriptions (dataset ld) ids))
                        = length ids
                    \<and> list_all (\<lambda>r. length r = dim_emb m)
                         (ent_emb m (params m) (get_entity_descriptions (dataset ld) ids)))
       (batches (batch_size ld) [0..<num_entities m])"


text \<open>
  The events of one outer iteration: the aligner once, one \<open>backward\<close> per batch
  of the pass, one optimizer step, the zeroing of the gradients.
\<close>

definition entity_events :: "(nat \<Rightarrow> 'b list) \<Rightarrow> nat \<Rightarrow> event list" where
  "entity_events ld i = Align i # map (Backward i) [0..<length (ld i)] @ [Step i, ZeroGrad i]"

text \<open>
  The parameters after an iteration that starts with zero gradients: one optimizer
  step on the sum of the gradients of this entity's pass, all taken at the
  parameters the iteration started with.
\<close>

definition entity_update ::
  "('p, 'g :: monoid_add, 'd, 'b) trainer \<Rightarrow> 'd dataset \<Rightarrow> (nat \<Rightarrow> 'b list) \<Rightarrow> real list list \<Rightarrow>
   nat \<Rightarrow> 'p \<Rightarrow> 'p" where
  "entity_update tr ds ld summaries i p =
     opt_step tr p
       (sum_list (map (\<lambda>data. loss_grad tr p data
                                 (aligner tr p (get_entity_descriptions ds [i]) summaries))
                      (ld i)))"

text \<open>
  The record written to the descriptions file at line 118:
  \<open><entity_id> <title>: <text>\<close> and the end of the line.
\<close>

definition record_line :: "string \<Rightarrow> string \<Rightarrow> string \<Rightarrow> string" where
  "record_line e t x = e @ '' '' @ t @ '': '' @ x @ [newline]"

text \<open>
  No extract of the dictionary holds a newline.
\<close>

definition nl_free :: "(string \<rightharpoonup> string) \<Rightarrow> bool" where
  "nl_free extracts = (\<forall>k v. extracts k = Some v \<longrightarrow> newline \<notin> set v)"

text \<open>
  The invariant of \<open>retrieve_pages\<close>: of the entities \<open>ents\<close> handled so far, each
  is in one record of the descriptions file, or in one line of the no-wiki file, or
  still in \<open>ent_pages\<close> (\<open>pending\<close>); the counters count the lines of the two
  files.
\<close>

definition fetch_inv :: "string list \<Rightarrow> (string \<times> string) list \<Rightarrow> fetch_state \<Rightarrow> bool" where
  "fetch_inv ents pending st =
     (\<exists>recs missing.
        out_file st = map (\<lambda>(e, t, x). record_line e t x) recs
        \<and> no_wifi_file st = map (\<lambda>e. e @ [newline]) missing
        \<and> fetched_count st = length recs
        \<and> no_wiki_count st = length missing
        \<and> mset (map fst recs) + mset missing + mset (map fst pending) = mset ents
        \<and> list_all (\<lambda>(e, t, x). newline \<notin> set x) recs)"

text \<open>
  Bodies that hold every key the script indexes: an entity is either missing or has
  its sitelinks, with a title under \<open>enwiki\<close> when there is one; a page with an
  extract has a title; a redirect has its two ends.
\<close>

definition ent_ok :: "ent_data \<Rightarrow> bool" where
  "ent_ok ent =
     (if has_missing ent then True
      else (case sitelinks ent of
              None \<Rightarrow> False
            | Some links \<Rightarrow>
                (case links ''enwiki'' of None \<Rightarrow> True | Some link \<Rightarrow> sl_title link \<noteq> None)))"

definition pages_ok :: "page list \<Rightarrow> bool" where
  "pages_ok pgs =
     list_all (\<lambda>pg. case page_extract pg of None \<Rightarrow> True | Some x \<Rightarrow> page_title pg \<noteq> None) pgs"

definition redirects_ok :: "query \<Rightarrow> bool" where
  "redirects_ok q =
     (case redirects q of
        None \<Rightarrow> True
      | Some rs \<Rightarrow> list_all (\<lambda>r. r_from r \<noteq> None \<and> r_to r \<noteq> None) rs)"

text \<open>
  The claim about \<open>retrieve_pages\<close> in its own words, to be compared with the
  functions above. First the network as \<open>get_retry\<close> meets it from call \<open>n\<close> on:
  \<open>k\<close> attempts raise a connection error and the next one returns the body \<open>b\<close>.
\<close>

definition answers :: "'c network \<Rightarrow> 'c request \<Rightarrow> nat \<Rightarrow> nat \<Rightarrow> 'c body \<Rightarrow> bool" where
  "answers net req n k b =
     (list_all (\<lambda>j. net (n + j) req = ConnError) [0..<k] \<and> net (n + k) req = Response b)"

text \<open>
  What Wikidata says of an entity: the title of its English Wikipedia page, when it is
  not missing and has an \<open>enwiki\<close> sitelink. \<open>link_ok\<close>: the body holds every key
  the script indexes for this entity.
\<close>

definition enwiki_title :: "(string \<rightharpoonup> ent_data) \<Rightarrow> string \<Rightarrow> string option" where
  "enwiki_title link_data e =
     (case link_data e of
        None \<Rightarrow> None
      | Some ent \<Rightarrow>
          if has_missing ent then None
          else (case sitelinks ent of
                  None \<Rightarrow> None
                | Some links \<Rightarrow>
                    (case links ''enwiki'' of None \<Rightarrow> None | Some link \<Rightarrow> sl_title link)))"

definition link_ok :: "(string \<rightharpoonup> ent_data) \<Rightarrow> string \<Rightarrow> bool" where
  "link_ok link_data e = (case link_data e of None \<Rightarrow> False | Some ent \<Rightarrow> ent_ok ent)"

text \<open>
  The entities of a chunk without a page, in order; those with one, each with its
  title; the titles sent to Wikipedia.
\<close>

definition no_page :: "(string \<rightharpoonup> ent_data) \<Rightarrow> string list \<Rightarrow> string list" where
  "no_page link_data es = filter (\<lambda>e. enwiki_title link_data e = None) es"

definition titled :: "(string \<rightharpoonup> ent_data) \<Rightarrow> string list \<Rightarrow> (string \<times> string) list" where
  "titled link_data es = List.map_filter (\<lambda>e. map_option (Pair e) (enwiki_title link_data e)) es"

definition titles_of :: "(string \<rightharpoonup> ent_data) \<Rightarrow> string list \<Rightarrow> string list" where
  "titles_of link_data to_fetch = List.map_filter (enwiki_title link_data) to_fetch"

text \<open>
  Where a title leads: the target of the last redirect from it among the redirects of
  the first Wikipedia body, the title itself when there is none.
\<close>

definition redirect_map :: "redirect list \<Rightarrow> string \<rightharpoonup> string" where
  "redirect_map rs t =
     (case find (\<lambda>r. r_from r = Some t) (rev rs) of None \<Rightarrow> None | Some r \<Rightarrow> r_to r)"

definition redirect_dict_of :: "query \<Rightarrow> string \<rightharpoonup> string" where
  "redirect_dict_of q = (case redirects q of None \<Rightarrow> Map.empty | Some rs \<Rightarrow> redirect_map rs)"

definition redirect_target :: "query \<Rightarrow> string \<Rightarrow> string" where
  "redirect_target q t =
     (case redirects q of
        None \<Rightarrow> t
      | Some rs \<Rightarrow> (case redirect_map rs t of None \<Rightarrow> t | Some t' \<Rightarrow> t'))"

text \<open>
  The text found for a title in a list of pages: the extract of the last page with
  this title that has one, its newlines replaced.
\<close>

definition page_text :: "page list \<Rightarrow> string \<rightharpoonup> string" where
  "page_text pgs t =
     (case find (\<lambda>pg. page_title pg = Some t \<and> page_extract pg \<noteq> None) (rev pgs) of
        None \<Rightarrow> None
      | Some pg \<Rightarrow> map_option replace_newlines (page_extract pg))"

text \<open>
  The bodies that follow the body \<open>b\<close> when the continuation requests start at call
  \<open>n\<close>: each is the response to the continuation request of the body before it, and
  the last one asks for no continuation. A connection error here is no response.
\<close>

inductive continuation ::
  "'c network \<Rightarrow> string \<Rightarrow> nat \<Rightarrow> 'c body \<Rightarrow> 'c body list \<Rightarrow> bool" where
  last_body: "continue b = None \<Longrightarrow> continuation net tp n b []"
| next_body: "continue b = Some c \<Longrightarrow> net n (Continuation c tp) = Response b' \<Longrightarrow>
     continuation net tp (n + 1) b' bs \<Longrightarrow> continuation net tp n b (b' # bs)"

definition body_pages :: "'c body \<Rightarrow> page list option" where
  "body_pages b = (case query b of None \<Rightarrow> None | Some q \<Rightarrow> pages q)"

definition bodies_ok :: "'c body list \<Rightarrow> bool" where
  "bodies_ok bs =
     list_all (\<lambda>b. case body_pages b of None \<Rightarrow> False | Some pgs \<Rightarrow> pages_ok pgs) bs"

definition pages_of :: "'c body list \<Rightarrow> page list" where
  "pages_of bs = concat (map (\<lambda>b. case body_pages b of None \<Rightarrow> [] | Some pgs \<Rightarrow> pgs) bs)"

text \<open>
  The description found for an entity, given what Wikidata said (\<open>link_data\<close>), the
  first Wikipedia body's query \<open>q\<close> and all pages received for the chunk: the title
  its page's title leads to, and the text found for that title. There is none when the
  entity has no page or when no text was found for the title.
\<close>

definition description ::
  "(string \<rightharpoonup> ent_data) \<Rightarrow> query \<Rightarrow> page list \<Rightarrow> string \<Rightarrow> (string \<times> string) option" where
  "description link_data q pgs e =
     (case enwiki_title link_data e of
        None \<Rightarrow> None
      | Some t \<Rightarrow> map_option (\<lambda>x. (redirect_target q t, x)) (page_text pgs (redirect_target q t)))"

text \<open>
  What a chunk adds to the two files: one record per entity with a description, in
  the order of the chunk, and one bare line per other entity, first those without a page
  and then those without a text; the counters count the lines; \<open>n\<close> calls of
  \<open>requests.get\<close> have been made.
\<close>

definition chunk_written ::
  "(string \<rightharpoonup> ent_data) \<Rightarrow> query \<Rightarrow> page list \<Rightarrow> string list \<Rightarrow> nat \<Rightarrow> fetch_state \<Rightarrow>
   fetch_state" where
  "chunk_written link_data q pgs to_fetch n st =
     (let found = filter (\<lambda>e. description link_data q pgs e \<noteq> None) to_fetch;
          no_text = filter (\<lambda>e. enwiki_title link_data e \<noteq> None
                                \<and> description link_data q pgs e = None) to_fetch
      in \<lparr>out_file = out_file st @
             map (\<lambda>e. case the (description link_data q pgs e) of (t, x) \<Rightarrow> record_line e t x) found,
          no_wifi_file = no_wifi_file st
             @ map (\<lambda>e. e @ [newline]) (no_page link_data to_fetch @ no_text),
          fetched_count = fetched_count st + length found,
          no_wiki_count = no_wiki_count st + length (no_page link_data to_fetch) + length no_text,
          calls = n\<rparr>)"

text \<open>
  The outcome of a chunk from the state \<open>st\<close>: Wikidata answers the request for the
  chunk's entities after \<open>k1\<close> connection errors, with a body that covers them;
  Wikipedia answers the request for their titles after \<open>k2\<close> connection errors; the
  continuation requests are answered until a body asks for none; all bodies hold the
  keys the script indexes. Then the files hold what \<open>chunk_written\<close> says, with the
  pages of the first body and of the continuation bodies, in this order.
\<close>

definition chunk_outcome ::
  "'c network \<Rightarrow> string list \<Rightarrow> fetch_state \<Rightarrow> fetch_state \<Rightarrow> bool" where
  "chunk_outcome net to_fetch st st' =
     (\<exists>k1 b1 link_data k2 b2 q pgs bs.
        answers net (Wikidata (join ''|'' to_fetch)) (calls st) k1 b1
        \<and> entities b1 = Some link_data
        \<and> list_all (link_ok link_data) to_fetch
        \<and> answers net (Wikipedia (join ''|'' (titles_of link_data to_fetch)))
             (calls st + k1 + 1) k2 b2
        \<and> query b2 = Some q \<and> pages q = Some pgs \<and> pages_ok pgs \<and> redirects_ok q
        \<and> continuation net (join ''|'' (titles_of link_data to_fetch))
             (calls st + k1 + k2 + 2) b2 bs
        \<and> bodies_ok bs
        \<and> st' = chunk_written link_data q (pgs @ pages_of bs) to_fetch
                  (calls st + k1 + k2 + 2 + length bs) st)"

text \<open>The outcome of a run over the chunks, one after the other.\<close>

fun run_outcome ::
  "'c network \<Rightarrow> string list list \<Rightarrow> fetch_state \<Rightarrow> fetch_state \<Rightarrow> bool" where
  "run_outcome net [] st st' = (st' = st)"
| "run_outcome net (to_fetch # rest) st st' =
     (\<exists>st1. chunk_outcome net to_fetch st st1 \<and> run_outcome net rest st1 st')"

section \<open>Concrete inputs\<close>

text \<open>
  A model with two entities whose energy is the sum of head and tail, so that the rank
  of a true tail \<open>t\<close> is \<open>t + 1\<close> and the rank of a true head \<open>h\<close> is \<open>h + 1\<close>; its
  encoder returns the description tensor, which for the dataset below is the row
  \<open>[e]\<close> for entity \<open>e\<close>.
\<close>

definition ex_model :: "(unit, real list list) model" where
  "ex_model = \<lparr>num_entities = 2, dim_emb = 1, params = (),
     ent_emb = (\<lambda>p d. d),
     energy_eval = (\<lambda>p tab h t r. real (h + t))\<rparr>"

definition ex_dataset :: "triple list \<Rightarrow> bool \<Rightarrow> real list list dataset" where
  "ex_dataset ts txt = \<lparr>num_ents = 2, triples = ts, is_text = txt,
     get_entity_descriptions = (\<lambda>ids. map (\<lambda>i. [real i]) ids)\<rparr>"

definition ex_state :: "(unit, real list list) state" where
  "ex_state = \<lparr>model = ex_model, grad_enabled = True, run_log = []\<rparr>"

definition empty_loader :: "real list list loader" where
  "empty_loader = \<lparr>dataset = ex_dataset [] False, batch_size = 2\<rparr>"

text \<open>
  Three triples in batches of two, so that the last batch is half full; the same
  triples in another order; two triples in batches of one.
\<close>

definition ld_three :: "real list list loader" where
  "ld_three = \<lparr>dataset = ex_dataset [(0, 0, 0), (0, 0, 1), (1, 1, 0)] False, batch_size = 2\<rparr>"

definition ld_three_perm :: "real list list loader" where
  "ld_three_perm = \<lparr>dataset = ex_dataset [(1, 1, 0), (0, 0, 1), (0, 0, 0)] False, batch_size = 2\<rparr>"

definition ld_two :: "real list list loader" where
  "ld_two = \<lparr>dataset = ex_dataset [(0, 0, 0), (1, 1, 0)] False, batch_size = 1\<rparr>"

text \<open>
  What the ranking loop returns on \<open>ld_two\<close>, without \<open>max_num_batches\<close> and with
  \<open>max_num_batches = 1\<close>.
\<close>

definition acc_two :: eval_acc where
  "acc_two = \<lparr>acc_hits = 1, acc_mrr = 3 / 4, batch_count = 2,
     scored = [([[0, 1], [0, 1]], [0, 0]), ([[1, 2], [1, 2]], [1, 1])]\<rparr>"

definition acc_two_cut :: eval_acc where
  "acc_two_cut = \<lparr>acc_hits = 1, acc_mrr = 1, batch_count = 1,
     scored = [([[0, 1], [0, 1]], [0, 0])]\<rparr>"

text \<open>
  Five entities in chunks of two, on a text dataset.
\<close>

definition model_five :: "(unit, real list list) model" where
  "model_five = ex_model\<lparr>num_entities := 5\<rparr>"

definition ld_text :: "real list list loader" where
  "ld_text = \<lparr>dataset = ex_dataset [] True, batch_size = 2\<rparr>"







text \<open>
  An allocator whose memory holds zeros, and a summarizer that encodes every
  description as \<open>[1]\<close>.
\<close>

definition zero_memory :: "nat \<Rightarrow> nat \<Rightarrow> real list list" where
  "zero_memory n d = replicate n (replicate d 0)"

definition summarizer_one :: "real list list summary_model" where
  "summarizer_one = \<lparr>hidden_size = 1, summarize = (\<lambda>d. map (\<lambda>row. [1]) d)\<rparr>"

text \<open>
  A trainer on integers: the gradient of a batch is the batch, the optimizer
  subtracts the gradient; the loader yields \<open>[1, 2]\<close> for entity 0 and \<open>[10]\<close> for
  entity 1.
\<close>

definition int_trainer :: "(int, int, real list list, int) trainer" where
  "int_trainer = \<lparr>aligner = (\<lambda>p d summaries. d),
     loss_grad = (\<lambda>p data ent_embs. data),
     opt_step = (\<lambda>p g. p - g)\<rparr>"

definition int_loader :: "nat \<Rightarrow> int list" where
  "int_loader i = (if i = 0 then [1, 2] else [10])"

text \<open>
  A body without any of the keys, and a network whose first two calls raise a
  connection error.
\<close>

definition body_empty :: "unit body" where
  "body_empty = \<lparr>entities = None, query = None, continue = None\<rparr>"

definition net_flaky :: "unit network" where
  "net_flaky n req = (if n < 2 then ConnError else Response body_empty)"

text \<open>
  A run on four entities. Wikidata knows the page A for Q1, none for Q2, the page C for
  Q3 and the page D for Q4. The first Wikipedia request meets a connection error; the
  second returns the page B with an extract of two lines, the redirect from A to B,
  and asks for a continuation; the continuation returns an extract for C and none
  for D.
\<close>

definition wd_body :: "unit body" where
  "wd_body = \<lparr>entities = Some
       [''Q1'' \<mapsto> \<lparr>has_missing = False,
                    sitelinks = Some [''enwiki'' \<mapsto> \<lparr>sl_title = Some ''A''\<rparr>]\<rparr>,
        ''Q2'' \<mapsto> \<lparr>has_missing = True, sitelinks = None\<rparr>,
        ''Q3'' \<mapsto> \<lparr>has_missing = False,
                    sitelinks = Some [''enwiki'' \<mapsto> \<lparr>sl_title = Some ''C''\<rparr>]\<rparr>,
        ''Q4'' \<mapsto> \<lparr>has_missing = False,
                    sitelinks = Some [''enwiki'' \<mapsto> \<lparr>sl_title = Some ''D''\<rparr>]\<rparr>],
     query = None, continue = None\<rparr>"

definition wp_query :: query where
  "wp_query = \<lparr>pages = Some [\<lparr>page_title = Some ''B'',
                               page_extract = Some (''x'' @ [newline] @ ''y'')\<rparr>],
                redirects = Some [\<lparr>r_from = Some ''A'', r_to = Some ''B''\<rparr>]\<rparr>"

definition wp_body :: "unit body" where
  "wp_body = \<lparr>entities = None, query = Some wp_query, continue = Some ()\<rparr>"

definition wp_more :: "unit body" where
  "wp_more = \<lparr>entities = None,
     query = Some \<lparr>pages = Some [\<lparr>page_title = Some ''C'', page_extract = Some ''z''\<rparr>,
                                \<lparr>page_title = Some ''D'', page_extract = None\<rparr>],
                   redirects = None\<rparr>,
     continue = None\<rparr>"

definition net_wiki :: "unit network" where
  "net_wiki n req =
     (case req of
        Wikidata ids \<Rightarrow> Response wd_body
      | Wikipedia ts \<Rightarrow> if n < 2 then ConnError else Response wp_body
      | Continuation c ts \<Rightarrow> Response wp_more)"

definition four_lines :: "string list" where
  "four_lines = [''Q1'' @ [newline], ''Q2'' @ [newline], ''Q3'' @ [newline], ''Q4'' @ [newline]]"

definition fetched_four :: fetch_state where
  "fetched_four = \<lparr>out_file = [''Q1 B: x y'' @ [newline], ''Q3 C: z'' @ [newline]],
     no_wifi_file = [''Q2'' @ [newline], ''Q4'' @ [newline]],
     fetched_count = 2, no_wiki_count = 2, calls = 4\<rparr>"

text \<open>All pages received for the chunk of this run, in order.\<close>

definition all_pages_four :: "page list" where
  "all_pages_four = [\<lparr>page_title = Some ''B'', page_extract = Some (''x'' @ [newline] @ ''y'')\<rparr>,
     \<lparr>page_title = Some ''C'', page_extract = Some ''z''\<rparr>,
     \<lparr>page_title = Some ''D'', page_extract = None\<rparr>]"

section \<open>Properties of the ranking loop\<close>

lemma visited_Nil [simp]: "visited mx i [] = []"
  by (simp add: visited_def split: option.splits)

lemma visited_Cons:
  "visited mx i (b # bs) = (if mx = Some i then [] else b # visited mx (i + 1) bs)"
  by (auto simp: visited_def take_Cons' split: option.splits)

lemma visited_empty_iff: "visited mx 0 bts = [] \<longleftrightarrow> bts = [] \<or> mx = Some 0"
  by (cases bts) (auto simp: visited_Cons)

lemma ranking_loop_error:
  "ranking_loop m tab mx i bts acc = Inl e \<Longrightarrow> e = IndexError"
proof (induction bts arbitrary: i acc)
  case Nil
  then show ?case by simp
next
  case (Cons b bs)
  then show ?case
    by (auto simp: hit_at_k_def mrr_def split: if_splits sum.splits)
qed

lemma ranking_loop_count:
  "ranking_loop m tab mx i bts acc = Inr acc' \<Longrightarrow>
   batch_count acc' = batch_count acc + length (visited mx i bts)"
proof (induction bts arbitrary: i acc)
  case Nil
  then show ?case by simp
next
  case (Cons b bs)
  show ?case
  proof (cases "mx = Some i")
    case True
    with Cons.prems show ?thesis by (simp add: visited_Cons)
  next
    case False
    with Cons.prems obtain h r where
      step: "ranking_loop m tab mx (i + 1) bs
               (acc\<lparr>acc_hits := acc_hits acc + h, acc_mrr := acc_mrr acc + r,
                    batch_count := batch_count acc + 1,
                    scored := scored acc @ [score_batch m tab b]\<rparr>) = Inr acc'"
      by (auto split: sum.splits)
    from Cons.IH [OF step] False show ?thesis by (simp add: visited_Cons)
  qed
qed

lemma ranking_metrics_zero:
  "ranking_metrics m tab mx bts = Inl ZeroDivisionError \<longleftrightarrow> visited mx 0 bts = []"
proof (cases "ranking_loop m tab mx 0 bts \<lparr>acc_hits = 0, acc_mrr = 0, batch_count = 0, scored = []\<rparr>")
  case (Inl e)
  then have e: "e = IndexError" by (rule ranking_loop_error)
  have "visited mx 0 bts \<noteq> []"
  proof
    assume "visited mx 0 bts = []"
    then have "bts = [] \<or> mx = Some 0" by (simp add: visited_empty_iff)
    then show False using Inl by (cases bts) auto
  qed
  with Inl e show ?thesis by (simp add: ranking_metrics_def)
next
  case (Inr acc')
  from ranking_loop_count [OF Inr] Inr show ?thesis
    by (simp add: ranking_metrics_def)
qed

lemma ranking_metrics_error:
  "ranking_metrics m tab mx bts = Inl e \<Longrightarrow> e = IndexError \<or> e = ZeroDivisionError"
  by (auto simp: ranking_metrics_def split: sum.splits if_splits dest: ranking_loop_error)

lemma eval_link_prediction_unfold:
  assumes "build_ent_emb (model st) ld = Some (Inr (tab, w))"
  shows "eval_link_prediction st ld epoch prefix mx =
     (case ranking_metrics (model st) tab mx (iterate ld) of
        Inl e \<Rightarrow> Some (Inl e)
      | Inr acc \<Rightarrow>
          Some (Inr (st\<lparr>run_log := run_log st @
               [(prefix @ ''_valid_mrr'', acc_mrr acc, epoch),
                (prefix @ ''_valid_hits@10'', acc_hits acc, epoch)]\<rparr>)))"
  using assms
  by (simp add: eval_link_prediction_def no_grad_def eval_body_def split: sum.splits)

lemma zip_score_batch:
  "zip (fst (score_batch m tab b)) (snd (score_batch m tab b)) =
   map (tail_sub m tab) b @ map (head_sub m tab) b"
  by (simp add: score_batch_def Let_def tails_predictions_def heads_predictions_def
        tail_sub_def head_sub_def zip_map_map zip_same_conv_map o_def)

lemma length_true_ents: "length (snd (score_batch m tab b)) = 2 * length b"
  by (simp add: score_batch_def Let_def)

lemma in_range_score_batch:
  "in_range (fst (score_batch m tab b)) (snd (score_batch m tab b)) = triples_in_range m b"
  unfolding in_range_def zip_score_batch triples_in_range_def
  by (induction b) (auto simp: tail_sub_def head_sub_def)

lemma hit_count_append: "hit_count k (xs @ ys) = hit_count k xs + hit_count k ys"
  by (simp add: hit_count_def)

lemma rr_sum_append: "rr_sum (xs @ ys) = rr_sum xs + rr_sum ys"
  by (simp add: rr_sum_def)

lemma substitutions_append:
  "substitutions m tab (xs @ ys) = substitutions m tab xs @ substitutions m tab ys"
  by (simp add: substitutions_def)

lemma length_substitutions: "length (substitutions m tab xs) = 2 * length xs"
  by (induction xs) (simp_all add: substitutions_def)

lemma hit_count_batch:
  "hit_count k (map (tail_sub m tab) b @ map (head_sub m tab) b) =
   hit_count k (substitutions m tab b)"
  by (induction b) (simp_all add: hit_count_def substitutions_def)

lemma rr_sum_batch:
  "rr_sum (map (tail_sub m tab) b @ map (head_sub m tab) b) = rr_sum (substitutions m tab b)"
  by (induction b) (simp_all add: rr_sum_def substitutions_def)

lemma mset_batch:
  "mset (map (tail_sub m tab) b @ map (head_sub m tab) b) = mset (substitutions m tab b)"
  by (induction b) (simp_all add: substitutions_def)

lemma hit_at_k_score_batch:
  "hit_at_k (fst (score_batch m tab b)) (snd (score_batch m tab b)) k =
     (if triples_in_range m b
      then Inr (overall_hits_at k (substitutions m tab b)) else Inl IndexError)"
proof -
  have "real (length (filter (\<lambda>(row, t). rank row t \<le> k)
                 (map (tail_sub m tab) b @ map (head_sub m tab) b)))
        = real (hit_count k (substitutions m tab b))"
    using hit_count_batch [of k m tab b] by (simp only: hit_count_def)
  then show ?thesis
    by (simp only: hit_at_k_def in_range_score_batch zip_score_batch length_true_ents
          overall_hits_at_def length_substitutions)
qed

lemma mrr_score_batch:
  "mrr (fst (score_batch m tab b)) (snd (score_batch m tab b)) =
     (if triples_in_range m b
      then Inr (overall_mrr (substitutions m tab b)) else Inl IndexError)"
proof -
  have "sum_list (map (\<lambda>(row, t). 1 / real (rank row t))
                 (map (tail_sub m tab) b @ map (head_sub m tab) b))
        = rr_sum (substitutions m tab b)"
    using rr_sum_batch [of m tab b] by (simp only: rr_sum_def)
  then show ?thesis
    by (simp only: mrr_def in_range_score_batch zip_score_batch length_true_ents
          overall_mrr_def length_substitutions)
qed


lemma ranking_loop_None_index:
  "ranking_loop m tab None i bts acc = ranking_loop m tab None j bts acc"
proof (induction bts arbitrary: i j acc)
  case Nil
  show ?case by simp
next
  case (Cons b bs)
  have "\<And>a. ranking_loop m tab None (i + 1) bs a = ranking_loop m tab None (j + 1) bs a"
    by (rule Cons.IH)
  then show ?case by (simp split: sum.splits)
qed

lemma ranking_loop_visited:
  "ranking_loop m tab mx i bts acc = ranking_loop m tab None 0 (visited mx i bts) acc"
proof (induction bts arbitrary: i acc)
  case Nil
  show ?case by simp
next
  case (Cons b bs)
  show ?case
  proof (cases "mx = Some i")
    case True
    then show ?thesis by (simp add: visited_Cons)
  next
    case False
    have ih: "\<And>a. ranking_loop m tab mx (Suc i) bs a
                = ranking_loop m tab None (Suc 0) (visited mx (Suc i) bs) a"
      by (simp only: Cons.IH ranking_loop_None_index [of m tab "Suc 0" _ _ 0])
    from False have v: "visited mx i (b # bs) = b # visited mx (i + 1) bs"
      by (simp only: visited_Cons if_False)
    show ?thesis
      unfolding v using False by (simp add: ih split: sum.splits)
  qed
qed

lemma ranking_loop_None:
  "ranking_loop m tab None i bts acc =
     (if list_all (triples_in_range m) bts
      then Inr (acc\<lparr>acc_hits := acc_hits acc
                       + sum_list (map (\<lambda>b. overall_hits_at 10 (substitutions m tab b)) bts),
                    acc_mrr := acc_mrr acc
                       + sum_list (map (\<lambda>b. overall_mrr (substitutions m tab b)) bts),
                    batch_count := batch_count acc + length bts,
                    scored := scored acc @ map (score_batch m tab) bts\<rparr>)
      else Inl IndexError)"
proof (induction bts arbitrary: i acc)
  case Nil
  show ?case by simp
next
  case (Cons b bs)
  show ?case
    by (simp add: hit_at_k_score_batch mrr_score_batch Cons.IH add.assoc)
qed


lemma ranking_metrics_visited:
  "ranking_metrics m tab mx bts =
     (if \<not> list_all (triples_in_range m) (visited mx 0 bts) then Inl IndexError
      else if visited mx 0 bts = [] then Inl ZeroDivisionError
      else Inr \<lparr>acc_hits =
                   sum_list (map (\<lambda>b. overall_hits_at 10 (substitutions m tab b))
                               (visited mx 0 bts))
                   / real (length (visited mx 0 bts)),
                 acc_mrr =
                   sum_list (map (\<lambda>b. overall_mrr (substitutions m tab b))
                               (visited mx 0 bts))
                   / real (length (visited mx 0 bts)),
                 batch_count = length (visited mx 0 bts),
                 scored = map (score_batch m tab) (visited mx 0 bts)\<rparr>)"
  unfolding ranking_metrics_def ranking_loop_visited [of m tab mx 0 bts]
    ranking_loop_None [of m tab 0 "visited mx 0 bts"]
  by simp

lemma hit_count_concat:
  "hit_count k (substitutions m tab (concat bts)) =
   sum_list (map (\<lambda>b. hit_count k (substitutions m tab b)) bts)"
  by (induction bts) (simp_all add: substitutions_append hit_count_append,
                      simp add: substitutions_def hit_count_def)

lemma rr_sum_concat:
  "rr_sum (substitutions m tab (concat bts)) =
   sum_list (map (\<lambda>b. rr_sum (substitutions m tab b)) bts)"
  by (induction bts) (simp_all add: substitutions_append rr_sum_append,
                      simp add: substitutions_def rr_sum_def)

lemma length_concat_equal:
  "list_all (\<lambda>b. length b = n) bts \<Longrightarrow> length (concat bts) = n * length bts"
  by (induction bts) simp_all

lemma sum_list_divide_const:
  fixes f :: "'a \<Rightarrow> real"
  shows "sum_list (map (\<lambda>b. f b / c) bts) = sum_list (map f bts) / c"
  by (induction bts) (simp_all add: add_divide_distrib)

lemma real_sum_list:
  "real (sum_list (map f xs)) = sum_list (map (\<lambda>x. real (f x)) xs)"
  by (induction xs) simp_all

lemma mean_of_equal_batches_hits:
  assumes "list_all (\<lambda>b. length b = n) bts"
  shows "sum_list (map (\<lambda>b. overall_hits_at k (substitutions m tab b)) bts) / real (length bts)
         = overall_hits_at k (substitutions m tab (concat bts))"
proof -
  have "map (\<lambda>b. overall_hits_at k (substitutions m tab b)) bts
        = map (\<lambda>b. real (hit_count k (substitutions m tab b)) / real (2 * n)) bts"
    using assms by (induction bts) (simp_all add: overall_hits_at_def length_substitutions)
  then have "sum_list (map (\<lambda>b. overall_hits_at k (substitutions m tab b)) bts)
        = real (hit_count k (substitutions m tab (concat bts))) / real (2 * n)"
    by (simp only: sum_list_divide_const hit_count_concat real_sum_list)
  then show ?thesis
    by (simp add: overall_hits_at_def length_substitutions length_concat_equal [OF assms])
qed

lemma mean_of_equal_batches_mrr:
  assumes "list_all (\<lambda>b. length b = n) bts"
  shows "sum_list (map (\<lambda>b. overall_mrr (substitutions m tab b)) bts) / real (length bts)
         = overall_mrr (substitutions m tab (concat bts))"
proof -
  have "map (\<lambda>b. overall_mrr (substitutions m tab b)) bts
        = map (\<lambda>b. rr_sum (substitutions m tab b) / real (2 * n)) bts"
    using assms by (induction bts) (simp_all add: overall_mrr_def length_substitutions)
  then have "sum_list (map (\<lambda>b. overall_mrr (substitutions m tab b)) bts)
        = rr_sum (substitutions m tab (concat bts)) / real (2 * n)"
    by (simp only: sum_list_divide_const rr_sum_concat)
  then show ?thesis
    by (simp add: overall_mrr_def length_substitutions length_concat_equal [OF assms])
qed


lemma batches_Nil_iff: "batches bs xs = [] \<longleftrightarrow> xs = [] \<or> bs = 0"
  by (subst batches.simps) simp

lemma concat_batches: "0 < bs \<Longrightarrow> concat (batches bs xs) = xs"
proof (induction bs xs rule: batches.induct)
  case (1 bs xs)
  then show ?case by (subst batches.simps) auto
qed

lemma batches_nonempty: "list_all (\<lambda>b. b \<noteq> []) (batches bs xs)"
proof (induction bs xs rule: batches.induct)
  case (1 bs xs)
  then show ?case by (subst batches.simps) auto
qed

lemma batches_full:
  "0 < bs \<Longrightarrow> bs dvd length xs \<Longrightarrow> list_all (\<lambda>b. length b = bs) (batches bs xs)"
proof (induction bs xs rule: batches.induct)
  case (1 bs xs)
  show ?case
  proof (cases "xs = []")
    case True
    then show ?thesis by (subst batches.simps) simp
  next
    case False
    with "1.prems" have le: "bs \<le> length xs" by (auto dest: dvd_imp_le)
    from "1.prems" le have "bs dvd length (drop bs xs)" by (simp add: dvd_diff_nat)
    with "1.IH" False "1.prems" have "list_all (\<lambda>b. length b = bs) (batches bs (drop bs xs))"
      by simp
    with False "1.prems" le show ?thesis by (subst batches.simps) simp
  qed
qed

lemma length_batches_cong:
  "length xs = length ys \<Longrightarrow> length (batches bs xs) = length (batches bs ys)"
proof (induction bs xs arbitrary: ys rule: batches.induct)
  case (1 bs xs)
  show ?case
  proof (cases "xs = [] \<or> bs = 0")
    case True
    with "1.prems" show ?thesis by (auto simp: batches.simps [of bs xs] batches.simps [of bs ys])
  next
    case False
    with "1.prems" have "ys \<noteq> []" by auto
    moreover from "1.prems" have "length (drop bs xs) = length (drop bs ys)" by simp
    with "1.IH" False have "length (batches bs (drop bs xs)) = length (batches bs (drop bs ys))"
      by blast
    ultimately show ?thesis
      using False by (simp add: batches.simps [of bs xs] batches.simps [of bs ys])
  qed
qed

lemma visited_all:
  "(case mx of None \<Rightarrow> True | Some k \<Rightarrow> length bts \<le> k) \<Longrightarrow> visited mx 0 bts = bts"
  by (simp add: visited_def split: option.splits)

lemma triples_in_range_concat:
  "list_all (triples_in_range m) bts = triples_in_range m (concat bts)"
  by (induction bts) (simp_all add: triples_in_range_def)

lemma mset_substitutions:
  "mset (substitutions m tab xs) =
   sum_mset (image_mset (\<lambda>tr. {#tail_sub m tab tr, head_sub m tab tr#}) (mset xs))"
  by (induction xs) (simp_all add: substitutions_def)

lemma hit_count_mset: "hit_count k subs = size (filter_mset (\<lambda>(row, t). rank row t \<le> k) (mset subs))"
  by (simp add: hit_count_def flip: mset_filter)

lemma rr_sum_mset: "rr_sum subs = sum_mset (image_mset (\<lambda>(row, t). 1 / real (rank row t)) (mset subs))"
  by (simp add: rr_sum_def flip: sum_mset_sum_list)

lemma overall_perm:
  assumes "mset xs = mset ys"
  shows "overall_hits_at k (substitutions m tab xs) = overall_hits_at k (substitutions m tab ys)"
    and "overall_mrr (substitutions m tab xs) = overall_mrr (substitutions m tab ys)"
proof -
  from assms have "mset (substitutions m tab xs) = mset (substitutions m tab ys)"
    by (simp add: mset_substitutions)
  moreover from assms have "length xs = length ys" by (rule mset_eq_length)
  ultimately show
    "overall_hits_at k (substitutions m tab xs) = overall_hits_at k (substitutions m tab ys)"
    "overall_mrr (substitutions m tab xs) = overall_mrr (substitutions m tab ys)"
    by (simp_all add: overall_hits_at_def overall_mrr_def hit_count_mset rr_sum_mset
          length_substitutions)
qed

lemma triples_in_range_perm:
  "mset xs = mset ys \<Longrightarrow> triples_in_range m xs = triples_in_range m ys"
  by (auto simp: triples_in_range_def list_all_iff dest: mset_eq_setD)



lemma cache_loop_cong_Some:
  fixes m :: "('p, 'd) model" and ld ld' :: "'d loader"
  assumes run: "cache_loop m ld a i t w = Some y"
    and bs: "batch_size ld' = batch_size ld"
    and descr: "get_entity_descriptions (dataset ld') = get_entity_descriptions (dataset ld)"
  shows "cache_loop m ld' a i t w = Some y"
proof -
  have "\<forall>l' :: 'd loader. batch_size l' = batch_size ld \<and>
             get_entity_descriptions (dataset l') = get_entity_descriptions (dataset ld)
          \<longrightarrow> cache_loop m l' a i t w = Some y"
  proof (rule cache_loop.raw_induct
      [where P = "\<lambda>(m0 :: ('p, 'd) model) (l0 :: 'd loader) a0 i0 t0 w0 y0.
         \<forall>l' :: 'd loader. batch_size l' = batch_size l0 \<and>
               get_entity_descriptions (dataset l') = get_entity_descriptions (dataset l0)
            \<longrightarrow> cache_loop m0 l' a0 i0 t0 w0 = Some y0", OF _ run])
    fix cl and m0 :: "('p, 'd) model" and l0 :: "'d loader" and a0 i0 t0 w0 y0
    assume ih: "\<And>(m1 :: ('p, 'd) model) (l1 :: 'd loader) a1 i1 t1 w1 y1. cl m1 l1 a1 i1 t1 w1 = Some y1 \<Longrightarrow>
        \<forall>l' :: 'd loader. batch_size l' = batch_size l1 \<and>
              get_entity_descriptions (dataset l') = get_entity_descriptions (dataset l1)
           \<longrightarrow> cache_loop m1 l' a1 i1 t1 w1 = Some y1"
      and body: "(if i0 < num_entities m0
         then let batch_ents = slice a0 i0 (i0 + batch_size l0);
                  tokens_masks = get_entity_descriptions (dataset l0) batch_ents;
                  batch_emb = ent_emb m0 (params m0) tokens_masks
              in case slice_assign t0 (dim_emb m0) i0 (i0 + batch_size l0) batch_emb of
                   Inl e \<Rightarrow> Some (Inl e)
                 | Inr tab' \<Rightarrow>
                     cl m0 l0 a0 (i0 + batch_size l0) tab'
                       (w0 @ [(i0, slice [0..<length t0] i0 (i0 + batch_size l0))])
         else Some (Inr (t0, w0))) = Some y0"
    show "\<forall>l' :: 'd loader. batch_size l' = batch_size l0 \<and>
               get_entity_descriptions (dataset l') = get_entity_descriptions (dataset l0)
            \<longrightarrow> cache_loop m0 l' a0 i0 t0 w0 = Some y0"
    proof (intro allI impI, elim conjE)
      fix l' :: "'d loader"
      assume e: "batch_size l' = batch_size l0"
        "get_entity_descriptions (dataset l') = get_entity_descriptions (dataset l0)"
      show "cache_loop m0 l' a0 i0 t0 w0 = Some y0"
        by (subst cache_loop.simps)
           (use body e ih in \<open>auto simp: Let_def split: if_splits sum.splits\<close>)
    qed
  qed
  with bs descr show ?thesis by blast
qed

lemma cache_loop_cong:
  assumes "batch_size ld' = batch_size ld"
    and "get_entity_descriptions (dataset ld') = get_entity_descriptions (dataset ld)"
  shows "cache_loop m ld' a i t w = cache_loop m ld a i t w"
proof (cases "cache_loop m ld a i t w")
  case (Some y)
  with cache_loop_cong_Some [OF Some assms] show ?thesis by simp
next
  case None
  show ?thesis
  proof (cases "cache_loop m ld' a i t w")
    case (Some y)
    from cache_loop_cong_Some [OF Some assms(1) [symmetric] assms(2) [symmetric]] None
    show ?thesis by simp
  next
    case None': None
    with None show ?thesis by simp
  qed
qed

lemma build_ent_emb_triples:
  "build_ent_emb m (ld\<lparr>dataset := (dataset ld)\<lparr>triples := ys\<rparr>\<rparr>) = build_ent_emb m ld"
proof -
  have "cache_loop m (ld\<lparr>dataset := (dataset ld)\<lparr>triples := ys\<rparr>\<rparr>) a i t w
        = cache_loop m ld a i t w" for a i t w
    by (rule cache_loop_cong) simp_all
  then show ?thesis by (simp add: build_ent_emb_def)
qed

lemma pairs_scored_metrics:
  assumes "ranking_metrics m tab mx bts = Inr acc"
  shows "scored acc = map (score_batch m tab) (visited mx 0 bts)"
  using assms by (auto simp: ranking_metrics_visited split: if_splits)

lemma mset_pairs_batches:
  "mset (concat (map (\<lambda>pt. zip (fst pt) (snd pt)) (map (score_batch m tab) bts)))
   = mset (substitutions m tab (concat bts))"
proof (induction bts)
  case Nil
  show ?case by (simp add: substitutions_def)
next
  case (Cons b bts)
  have "mset (zip (fst (score_batch m tab b)) (snd (score_batch m tab b)))
        = mset (substitutions m tab b)"
    by (simp only: zip_score_batch mset_batch)
  with Cons show ?case by (simp add: substitutions_append)
qed

lemma eval_link_prediction_cong:
  assumes b: "build_ent_emb (model st) ld' = build_ent_emb (model st) ld"
    and r: "\<And>tab. map_sum id (\<lambda>a. (acc_mrr a, acc_hits a))
                    (ranking_metrics (model st) tab mx (iterate ld'))
                 = map_sum id (\<lambda>a. (acc_mrr a, acc_hits a))
                    (ranking_metrics (model st) tab mx (iterate ld))"
  shows "eval_link_prediction st ld' epoch prefix mx = eval_link_prediction st ld epoch prefix mx"
proof (cases "build_ent_emb (model st) ld")
  case None
  with b show ?thesis by (simp add: eval_link_prediction_def no_grad_def eval_body_def)
next
  case (Some res)
  show ?thesis
  proof (cases res)
    case (Inl e)
    with Some b show ?thesis by (simp add: eval_link_prediction_def no_grad_def eval_body_def)
  next
    case (Inr tw)
    obtain tab w where tw: "tw = (tab, w)" by (cases tw)
    from Some Inr tw have b1: "build_ent_emb (model st) ld = Some (Inr (tab, w))" by simp
    with b have b2: "build_ent_emb (model st) ld' = Some (Inr (tab, w))" by simp
    show ?thesis
      unfolding eval_link_prediction_unfold [OF b1] eval_link_prediction_unfold [OF b2]
      using r [of tab]
      by (cases "ranking_metrics (model st) tab mx (iterate ld')";
          cases "ranking_metrics (model st) tab mx (iterate ld)") simp_all
  qed
qed

lemma build_ld_three: "build_ent_emb (model ex_state) ld_three = Some (Inr (None, []))"
  by (simp add: build_ent_emb_def ld_three_def ex_dataset_def)

lemma build_ld_three_perm: "build_ent_emb (model ex_state) ld_three_perm = Some (Inr (None, []))"
  by (simp add: build_ent_emb_def ld_three_perm_def ex_dataset_def)

lemma build_ld_two: "build_ent_emb (model ex_state) ld_two = Some (Inr (None, []))"
  by (simp add: build_ent_emb_def ld_two_def ex_dataset_def)

lemma iterate_ld_three: "iterate ld_three = [[(0, 0, 0), (0, 0, 1)], [(1, 1, 0)]]"
  by (simp add: iterate_def ld_three_def ex_dataset_def batches.simps)

lemma iterate_ld_three_perm: "iterate ld_three_perm = [[(1, 1, 0), (0, 0, 1)], [(0, 0, 0)]]"
  by (simp add: iterate_def ld_three_perm_def ex_dataset_def batches.simps)

lemma iterate_ld_two: "iterate ld_two = [[(0, 0, 0)], [(1, 1, 0)]]"
  by (simp add: iterate_def ld_two_def ex_dataset_def batches.simps)

lemma run_log_ex_state: "run_log ex_state = []"
  by (simp add: ex_state_def)

lemma upt_two: "[0..<2] = [0, Suc 0]"
  by (simp add: numeral_2_eq_2)

lemma ex_substitutions:
  "substitutions (model ex_state) None [(h, t, r)] =
     [([real h, real h + 1], t), ([real t, 1 + real t], h)]"
  by (simp add: substitutions_def tail_sub_def head_sub_def ex_state_def ex_model_def
        head_of_def tail_of_def rel_of_def upt_two)

lemma ex_in_range:
  "triples_in_range (model ex_state) trs = list_all (\<lambda>tr. fst tr < 2 \<and> fst (snd tr) < 2) trs"
  by (simp add: triples_in_range_def ex_state_def ex_model_def head_of_def tail_of_def)

lemma ex_overall:
  "overall_mrr (substitutions (model ex_state) None [(0, 0, 0)]) = 1"
  "overall_mrr (substitutions (model ex_state) None [(Suc 0, Suc 0, 0)]) = 1 / 2"
  "overall_mrr (substitutions (model ex_state) None [(0, 0, 0), (0, 0, Suc 0)]) = 1"
  "overall_mrr (substitutions (model ex_state) None [(Suc 0, Suc 0, 0), (0, 0, Suc 0)]) = 3 / 4"
  "overall_mrr (substitutions (model ex_state) None [(0, 0, 0), (Suc 0, Suc 0, 0)]) = 3 / 4"
  "overall_mrr (substitutions (model ex_state) None [(0, 0, 0), (0, 0, Suc 0), (Suc 0, Suc 0, 0)]) = 5 / 6"
  "overall_hits_at 10 (substitutions (model ex_state) None [(0, 0, 0)]) = 1"
  "overall_hits_at 10 (substitutions (model ex_state) None [(Suc 0, Suc 0, 0)]) = 1"
  "overall_hits_at 10 (substitutions (model ex_state) None [(0, 0, 0), (0, 0, Suc 0)]) = 1"
  "overall_hits_at 10 (substitutions (model ex_state) None [(Suc 0, Suc 0, 0), (0, 0, Suc 0)]) = 1"
  "overall_hits_at 10 (substitutions (model ex_state) None [(0, 0, 0), (Suc 0, Suc 0, 0)]) = 1"
  by (simp_all add: substitutions_append [of _ _ "[x]" "y # ys" for x y ys, simplified]
        ex_substitutions overall_mrr_def overall_hits_at_def rr_sum_def hit_count_def rank_def)

lemma ex_score_batch:
  "score_batch (model ex_state) None [(h, t, r)] =
     ([[real h, real h + 1], [real t, 1 + real t]], [t, h])"
  by (simp add: score_batch_def tails_predictions_def heads_predictions_def ex_state_def
        ex_model_def head_of_def tail_of_def rel_of_def upt_two)

lemma metrics_ld_two: "ranking_metrics (model ex_state) None None (iterate ld_two) = Inr acc_two"
  by (simp add: ranking_metrics_visited iterate_ld_two visited_def ex_in_range ex_overall
        ex_score_batch acc_two_def)

lemma metrics_ld_two_cut:
  "ranking_metrics (model ex_state) None (Some 1) (iterate ld_two) = Inr acc_two_cut"
  by (simp add: ranking_metrics_visited iterate_ld_two visited_def ex_in_range ex_overall
        ex_score_batch acc_two_cut_def)

lemma batches_upt:
  "0 < bs \<Longrightarrow> a < n \<Longrightarrow>
   batches bs [a..<n] = [a..<min (a + bs) n] # batches bs [a + bs..<n]"
  by (subst batches.simps) (auto simp: take_upt min_def drop_upt add.commute)

lemma batches_empty: "batches bs [] = []"
  by (subst batches.simps) simp

lemma cache_loop_run:
  fixes m :: "('p, 'd) model" and ld :: "'d loader"
  assumes pos: "0 < batch_size ld"
    and len: "length tab = num_entities m"
    and ok: "list_all (\<lambda>ids. length (ent_emb m (params m) (get_entity_descriptions (dataset ld) ids))
                        = length ids
                    \<and> list_all (\<lambda>r. length r = dim_emb m)
                         (ent_emb m (params m) (get_entity_descriptions (dataset ld) ids)))
       (batches (batch_size ld) [idx..<num_entities m])"
  shows "cache_loop m ld [0..<num_entities m] idx tab writes =
     Some (Inr (take idx tab
                  @ concat (map (\<lambda>ids. ent_emb m (params m) (get_entity_descriptions (dataset ld) ids))
                              (batches (batch_size ld) [idx..<num_entities m])),
                writes @ map (\<lambda>ids. (hd ids, ids)) (batches (batch_size ld) [idx..<num_entities m])))"
  using len ok
proof (induction "num_entities m - idx" arbitrary: idx tab writes rule: less_induct)
  case less
  let ?N = "num_entities m" and ?bs = "batch_size ld"
  let ?enc = "\<lambda>ids. ent_emb m (params m) (get_entity_descriptions (dataset ld) ids)"
  show ?case
  proof (cases "idx < ?N")
    case False
    then show ?thesis
      using less.prems by (subst cache_loop.simps) (simp add: batches_empty)
  next
    case True
    let ?c = "[idx..<min (idx + ?bs) ?N]"
    have b: "batches ?bs [idx..<?N] = ?c # batches ?bs [idx + ?bs..<?N]"
      using pos True by (rule batches_upt)
    have sl: "slice [0..<?N] idx (idx + ?bs) = ?c"
      using True by (auto simp: slice_def take_upt drop_upt min_def)
    have sl2: "slice [0..<length tab] idx (idx + ?bs) = ?c"
      using sl less.prems(1) by simp
    have lc: "length ?c = length (slice tab idx (idx + ?bs))"
      using True less.prems(1) by (auto simp: slice_def min_def)
    from less.prems(2) b have okc: "length (?enc ?c) = length ?c"
      "list_all (\<lambda>r. length r = dim_emb m) (?enc ?c)"
      and okr: "list_all (\<lambda>ids. length (?enc ids) = length ids
                    \<and> list_all (\<lambda>r. length r = dim_emb m) (?enc ids))
                 (batches ?bs [idx + ?bs..<?N])"
      by simp_all
    let ?tab' = "take idx tab @ ?enc ?c @ drop (idx + ?bs) tab"
    have sa: "slice_assign tab (dim_emb m) idx (idx + ?bs) (?enc ?c) = Inr ?tab'"
      using okc lc by (simp add: slice_assign_def)
    have len': "length ?tab' = ?N"
      using okc(1) True less.prems(1) by (auto simp: min_def)
    have tk: "take (idx + ?bs) ?tab' = take idx tab @ ?enc ?c"
      using okc(1) True less.prems(1) by (auto simp: min_def)
    have dec: "?N - (idx + ?bs) < ?N - idx" using pos True by simp
    have step: "cache_loop m ld [0..<?N] (idx + ?bs) ?tab' (writes @ [(idx, ?c)]) =
       Some (Inr (take (idx + ?bs) ?tab'
                  @ concat (map ?enc (batches ?bs [idx + ?bs..<?N])),
                (writes @ [(idx, ?c)])
                  @ map (\<lambda>ids. (hd ids, ids)) (batches ?bs [idx + ?bs..<?N])))"
      by (rule less.hyps [OF dec len' okr])
    have hdc: "hd ?c = idx" using True pos by (simp add: hd_upt) 
    have unfold: "cache_loop m ld [0..<?N] idx tab writes
        = cache_loop m ld [0..<?N] (idx + ?bs) ?tab' (writes @ [(idx, ?c)])"
      by (subst cache_loop.simps) (simp only: True if_True Let_def sl sl2 sa sum.case)
    show ?thesis
      unfolding unfold step tk b by (simp only: list.map concat.simps append_assoc hdc append.simps)
  qed
qed

lemma batches_upt_nth:
  "0 < bs \<Longrightarrow> k < length (batches bs [a..<n]) \<Longrightarrow>
   batches bs [a..<n] ! k = [a + k * bs..<min (a + k * bs + bs) n]"
proof (induction k arbitrary: a)
  case 0
  then have "a < n" by (cases "a < n") (simp_all add: batches_empty)
  with 0 show ?case by (simp add: batches_upt)
next
  case (Suc k)
  then have an: "a < n" by (cases "a < n") (simp_all add: batches_empty)
  with Suc.prems have "k < length (batches bs [a + bs..<n])" by (simp add: batches_upt)
  from Suc.IH [OF Suc.prems(1) this] an Suc.prems(1) show ?case
    by (simp add: batches_upt add.assoc add.commute)
qed

lemma chunk_le: "i < j \<Longrightarrow> i * bs + bs \<le> j * (bs :: nat)"
proof -
  assume "i < j"
  then have "Suc i * bs \<le> j * bs" by (intro mult_le_mono1) simp
  then show ?thesis by (simp add: add.commute)
qed

lemma build_ent_emb_text:
  fixes m :: "('p, 'd) model" and ld :: "'d loader"
  assumes tx: "is_text (dataset ld)" and pos: "0 < batch_size ld" and ok: "encoder_ok m ld"
  shows "build_ent_emb m ld =
     Some (Inr (Some (concat (map (\<lambda>ids. ent_emb m (params m)
                                      (get_entity_descriptions (dataset ld) ids))
                          (batches (batch_size ld) [0..<num_entities m]))),
                map (\<lambda>ids. (hd ids, ids)) (batches (batch_size ld) [0..<num_entities m])))"
proof -
  have "length (replicate (num_entities m) (replicate (dim_emb m) (0 :: real))) = num_entities m"
    by simp
  from cache_loop_run [OF pos this ok [unfolded encoder_ok_def], of "[]"] tx
  show ?thesis by (simp add: build_ent_emb_def)
qed

lemma build_model_five:
  "build_ent_emb model_five ld_text =
     Some (Inr (Some [[0], [1], [2], [3], [4]], [(0, [0, 1]), (2, [2, 3]), (4, [4])]))"
  by (simp add: build_ent_emb_def model_five_def ex_model_def ld_text_def ex_dataset_def
        cache_loop.simps slice_def slice_assign_def eval_nat_numeral Let_def)















lemma forward_on:
  "w_grad_enabled w \<Longrightarrow>
   forward writes f w = w\<lparr>w_model := (w_model w)\<lparr>params := writes f (params (w_model w))\<rparr>,
                            w_graph := w_graph w @ [f]\<rparr>"
  by (simp add: forward_def)




section \<open>Properties of the training loop\<close>

lemma triple_pass_result:
  "triple_pass tr ent_embs i j bts st =
     st\<lparr>t_grads := t_grads st + sum_list (map (\<lambda>data. loss_grad tr (t_params st) data ent_embs) bts),
        trace := trace st @ map (Backward i) [j..<j + length bts]\<rparr>"
proof (induction bts arbitrary: j st)
  case Nil
  show ?case by simp
next
  case (Cons data rest)
  have u: "[j..<j + length (data # rest)] = j # [j + 1..<j + 1 + length rest]"
    by (simp add: upt_conv_Cons del: upt_Suc)
  show ?case unfolding u by (simp add: Cons.IH add.assoc del: upt_Suc)
qed

lemma train_entity_result:
  "train_entity tr ds ld summaries i st =
     st\<lparr>t_params := opt_step tr (t_params st)
          (t_grads st + sum_list (map (\<lambda>data. loss_grad tr (t_params st) data
                 (aligner tr (t_params st) (get_entity_descriptions ds [i]) summaries)) (ld i))),
        t_grads := 0,
        trace := trace st @ entity_events ld i\<rparr>"
  by (simp add: train_entity_def Let_def triple_pass_result entity_events_def)

lemma entity_loop_result:
  "t_grads st = 0 \<Longrightarrow>
   entity_loop tr ds ld summaries ids st =
     st\<lparr>t_params := fold (entity_update tr ds ld summaries) ids (t_params st),
        t_grads := 0,
        trace := trace st @ concat (map (entity_events ld) ids)\<rparr>"
proof (induction ids arbitrary: st)
  case Nil
  then show ?case by simp
next
  case (Cons i rest)
  have "t_grads (train_entity tr ds ld summaries i st) = 0"
    by (simp add: train_entity_result)
  from Cons.IH [OF this] Cons.prems show ?case
    by (simp add: train_entity_result entity_update_def)
qed

section \<open>Properties of the fetch script\<close>

lemma get_retry_skip:
  "(\<forall>j<k. net (n + j) req = ConnError) \<Longrightarrow>
   get_retry net req delay n slept = get_retry net req delay (n + k) (slept + k * delay)"
proof (induction k arbitrary: n slept)
  case 0
  show ?case by simp
next
  case (Suc k)
  from Suc.prems have first: "net n req = ConnError" by (metis add.right_neutral zero_less_Suc)
  from Suc.prems have "\<forall>j<k. net (n + 1 + j) req = ConnError"
    by (metis Suc_less_eq add_Suc_right add_Suc_shift Suc_eq_plus1)
  from Suc.IH [OF this] have step:
    "get_retry net req delay (n + 1) (slept + delay)
     = get_retry net req delay (n + 1 + k) (slept + delay + k * delay)" .
  have "get_retry net req delay n slept = get_retry net req delay (n + 1) (slept + delay)"
    using first by (subst get_retry.simps) simp
  also note step
  also have "n + 1 + k = n + Suc k" by simp
  also have "slept + delay + k * delay = slept + Suc k * delay" by simp
  finally show ?case .
qed

lemma get_retry_Some:
  assumes "get_retry net req delay n slept = Some y"
  shows "y \<noteq> Inl ConnectionError \<and> (\<exists>j. net (n + j) req \<noteq> ConnError)"
  using assms
proof (rule get_retry.raw_induct
    [where P = "\<lambda>net req delay (n :: nat) slept y.
       y \<noteq> Inl ConnectionError \<and> (\<exists>j. net (n + j) req \<noteq> ConnError)", rotated])
  fix gr net req delay and n :: nat and slept y
  assume ih: "\<And>net req delay (n :: nat) slept y. gr net req delay n slept = Some y \<Longrightarrow>
          y \<noteq> Inl ConnectionError \<and> (\<exists>j. net (n + j) req \<noteq> ConnError)"
    and body: "(case net n req of
        Response r \<Rightarrow> Some (Inr (r, n + 1, slept))
      | ConnError \<Rightarrow> gr net req delay (n + 1) (slept + delay)
      | OtherError \<Rightarrow> Some (Inl RequestError)) = Some y"
  show "y \<noteq> Inl ConnectionError \<and> (\<exists>j. net (n + j) req \<noteq> ConnError)"
  proof (cases "net n req")
    case (Response r)
    with body have "y = Inr (r, n + 1, slept)" by simp
    moreover from Response have "net (n + 0) req \<noteq> ConnError" by simp
    ultimately show ?thesis by blast
  next
    case ConnError
    with body have "gr net req delay (n + 1) (slept + delay) = Some y" by simp
    from ih [OF this] obtain j where "y \<noteq> Inl ConnectionError"
      "net (n + 1 + j) req \<noteq> ConnError" by blast
    then have "y \<noteq> Inl ConnectionError" "net (n + (1 + j)) req \<noteq> ConnError"
      by (simp_all add: add.assoc)
    then show ?thesis by blast
  next
    case OtherError
    with body have "y = Inl RequestError" by simp
    moreover from OtherError have "net (n + 0) req \<noteq> ConnError" by simp
    ultimately show ?thesis by blast
  qed
qed

lemma replace_newlines_free: "newline \<notin> set (replace_newlines s)"
  by (auto simp: replace_newlines_def newline_def)

lemma nl_free_empty: "nl_free Map.empty"
  by (simp add: nl_free_def)

lemma nl_free_upd: "nl_free m \<Longrightarrow> newline \<notin> set v \<Longrightarrow> nl_free (m(k \<mapsto> v))"
  by (simp add: nl_free_def)

lemma nl_free_add: "nl_free a \<Longrightarrow> nl_free b \<Longrightarrow> nl_free (a ++ b)"
  by (auto simp: nl_free_def map_add_Some_iff)

lemma get_extracts_loop_nl:
  "nl_free ex \<Longrightarrow> get_extracts_loop pgs ex = Inr ex' \<Longrightarrow> nl_free ex'"
proof (induction pgs arbitrary: ex)
  case Nil
  then show ?case by simp
next
  case (Cons pg rest)
  show ?case
  proof (cases "page_extract pg")
    case None
    with Cons show ?thesis by simp
  next
    case (Some x)
    with Cons.prems obtain t where t: "page_title pg = Some t"
      and r: "get_extracts_loop rest (ex(t \<mapsto> replace_newlines x)) = Inr ex'"
      by (auto simp: Let_def split: option.splits)
    from Cons.prems(1) have "nl_free (ex(t \<mapsto> replace_newlines x))"
      by (intro nl_free_upd replace_newlines_free)
    from Cons.IH [OF this r] show ?thesis .
  qed
qed

lemma get_extracts_nl: "get_extracts_from_pages pgs = Inr ex \<Longrightarrow> nl_free ex"
  unfolding get_extracts_from_pages_def by (rule get_extracts_loop_nl [OF nl_free_empty])

lemma continue_loop_nl:
  assumes "continue_loop net tp td ex n = Some y"
  shows "nl_free ex \<longrightarrow> (\<forall>ex' n'. y = Inr (ex', n') \<longrightarrow> nl_free ex')"
  using assms
proof (rule continue_loop.raw_induct
    [where P = "\<lambda>net tp td ex (n :: nat) y.
        nl_free ex \<longrightarrow> (\<forall>ex' (n' :: nat). y = Inr (ex', n') \<longrightarrow> nl_free ex')", rotated])
  fix cl and net :: "'a network" and tp td ex and n :: nat and y
  assume ih: "\<And>(net :: 'a network) tp td ex (n :: nat) y. cl net tp td ex n = Some y \<Longrightarrow>
        nl_free ex \<longrightarrow> (\<forall>ex' (n' :: nat). y = Inr (ex', n') \<longrightarrow> nl_free ex')"
    and body: "(case continue td of
        None \<Rightarrow> Some (Inr (ex, n))
      | Some c \<Rightarrow>
          (case net n (Continuation c tp) of
             ConnError \<Rightarrow> Some (Inl ConnectionError)
           | OtherError \<Rightarrow> Some (Inl RequestError)
           | Response text_data' \<Rightarrow>
               (case query text_data' of
                  None \<Rightarrow> Some (Inl KeyError)
                | Some q \<Rightarrow>
                    (case pages q of
                       None \<Rightarrow> Some (Inl KeyError)
                     | Some pgs \<Rightarrow>
                         (case get_extracts_from_pages pgs of
                            Inl e \<Rightarrow> Some (Inl e)
                          | Inr new_extracts \<Rightarrow>
                              cl net tp text_data' (ex ++ new_extracts) (n + 1)))))) = Some y"
  show "nl_free ex \<longrightarrow> (\<forall>ex' (n' :: nat). y = Inr (ex', n') \<longrightarrow> nl_free ex')"
  proof (intro impI allI)
    fix ex' :: "string \<rightharpoonup> string" and n' :: nat
    assume f: "nl_free ex" and y: "y = Inr (ex', n')"
    show "nl_free ex'"
    proof (cases "continue td")
      case None
      with body y f show ?thesis by simp
    next
      case (Some c)
      with body y obtain td' q pgs new where
        g: "get_extracts_from_pages pgs = Inr new"
        and c: "cl net tp td' (ex ++ new) (n + 1) = Some (Inr (ex', n'))"
        by (auto split: outcome.splits option.splits sum.splits)
      from g have "nl_free new" by (rule get_extracts_nl)
      with f have "nl_free (ex ++ new)" by (rule nl_free_add)
      with ih [OF c] show ?thesis by blast
    qed
  qed
qed

lemma fetch_inv_calls: "fetch_inv ents pending (st\<lparr>calls := n\<rparr>) = fetch_inv ents pending st"
  by (simp add: fetch_inv_def)

lemma fetch_inv_no_wiki:
  assumes "fetch_inv ents pending st"
  shows "fetch_inv (ents @ [e]) pending
           (st\<lparr>no_wiki_count := no_wiki_count st + 1,
               no_wifi_file := no_wifi_file st @ [e @ [newline]]\<rparr>)"
proof -
  from assms obtain recs missing where
    "out_file st = map (\<lambda>(e, t, x). record_line e t x) recs"
    "no_wifi_file st = map (\<lambda>e. e @ [newline]) missing"
    "fetched_count st = length recs" "no_wiki_count st = length missing"
    "mset (map fst recs) + mset missing + mset (map fst pending) = mset ents"
    "list_all (\<lambda>(e, t, x). newline \<notin> set x) recs"
    unfolding fetch_inv_def by blast
  then show ?thesis
    unfolding fetch_inv_def
    by (intro exI [of _ recs] exI [of _ "missing @ [e]"]) simp
qed

lemma fetch_inv_pending:
  assumes "fetch_inv ents pending st"
  shows "fetch_inv (ents @ [e]) (pending @ [(e, t)]) st"
proof -
  from assms obtain recs missing where
    "out_file st = map (\<lambda>(e, t, x). record_line e t x) recs"
    "no_wifi_file st = map (\<lambda>e. e @ [newline]) missing"
    "fetched_count st = length recs" "no_wiki_count st = length missing"
    "mset (map fst recs) + mset missing + mset (map fst pending) = mset ents"
    "list_all (\<lambda>(e, t, x). newline \<notin> set x) recs"
    unfolding fetch_inv_def by blast
  then show ?thesis
    unfolding fetch_inv_def
    by (intro exI [of _ recs] exI [of _ missing]) simp
qed

lemma fetch_inv_missing:
  assumes "fetch_inv ents ((e, t) # pending) st"
  shows "fetch_inv ents pending
           (st\<lparr>no_wiki_count := no_wiki_count st + 1,
               no_wifi_file := no_wifi_file st @ [e @ [newline]]\<rparr>)"
proof -
  from assms obtain recs missing where
    "out_file st = map (\<lambda>(e, t, x). record_line e t x) recs"
    "no_wifi_file st = map (\<lambda>e. e @ [newline]) missing"
    "fetched_count st = length recs" "no_wiki_count st = length missing"
    "mset (map fst recs) + mset missing + mset (map fst ((e, t) # pending)) = mset ents"
    "list_all (\<lambda>(e, t, x). newline \<notin> set x) recs"
    unfolding fetch_inv_def by blast
  then show ?thesis
    unfolding fetch_inv_def
    by (intro exI [of _ recs] exI [of _ "missing @ [e]"]) simp
qed

lemma fetch_inv_fetched:
  assumes "fetch_inv ents ((e, t) # pending) st" and "newline \<notin> set x"
  shows "fetch_inv ents pending
           (st\<lparr>out_file := out_file st @ [record_line e t' x],
               fetched_count := fetched_count st + 1\<rparr>)"
proof -
  from assms(1) obtain recs missing where
    "out_file st = map (\<lambda>(e, t, x). record_line e t x) recs"
    "no_wifi_file st = map (\<lambda>e. e @ [newline]) missing"
    "fetched_count st = length recs" "no_wiki_count st = length missing"
    "mset (map fst recs) + mset missing + mset (map fst ((e, t) # pending)) = mset ents"
    "list_all (\<lambda>(e, t, x). newline \<notin> set x) recs"
    unfolding fetch_inv_def by blast
  with assms(2) show ?thesis
    unfolding fetch_inv_def
    by (intro exI [of _ "recs @ [(e, t', x)]"] exI [of _ missing]) simp
qed

lemma link_loop_inv:
  "fetch_inv ents pending st \<Longrightarrow> link_loop link_data es pending st = Inr (pending', st') \<Longrightarrow>
   fetch_inv (ents @ es) pending' st'"
proof (induction es arbitrary: ents pending st)
  case Nil
  then show ?case by simp
next
  case (Cons e rest)
  from Cons.prems(2) obtain ent where ent: "link_data e = Some ent"
    by (auto split: option.splits)
  show ?case
  proof (cases "has_missing ent")
    case True
    with Cons.prems(2) ent have
      "link_loop link_data rest pending
         (st\<lparr>no_wiki_count := no_wiki_count st + 1,
             no_wifi_file := no_wifi_file st @ [e @ [newline]]\<rparr>) = Inr (pending', st')"
      by simp
    from Cons.IH [OF fetch_inv_no_wiki [OF Cons.prems(1)] this] show ?thesis by simp
  next
    case False
    with Cons.prems(2) ent obtain links where links: "sitelinks ent = Some links"
      by (auto split: option.splits)
    show ?thesis
    proof (cases "links ''enwiki''")
      case None
      with Cons.prems(2) ent False links have
        "link_loop link_data rest pending
           (st\<lparr>no_wiki_count := no_wiki_count st + 1,
               no_wifi_file := no_wifi_file st @ [e @ [newline]]\<rparr>) = Inr (pending', st')"
        by simp
      from Cons.IH [OF fetch_inv_no_wiki [OF Cons.prems(1)] this] show ?thesis by simp
    next
      case (Some link)
      with Cons.prems(2) ent False links obtain t where
        "link_loop link_data rest (pending @ [(e, t)]) st = Inr (pending', st')"
        by (auto split: option.splits)
      from Cons.IH [OF fetch_inv_pending [OF Cons.prems(1)] this] show ?thesis by simp
    qed
  qed
qed

lemma save_loop_inv:
  "nl_free extracts \<Longrightarrow> fetch_inv ents pending st \<Longrightarrow>
   fetch_inv ents [] (save_loop redir_titles extracts pending st)"
proof (induction pending arbitrary: st)
  case Nil
  then show ?case by simp
next
  case (Cons p rest)
  obtain e t where p: "p = (e, t)" by (cases p)
  let ?t1 = "case redir_titles t of Some t' \<Rightarrow> t' | None \<Rightarrow> t"
  show ?case
  proof (cases "extracts ?t1")
    case None
    from Cons.IH [OF Cons.prems(1) fetch_inv_missing [OF Cons.prems(2) [unfolded p]]] None p
    show ?thesis by (simp add: Let_def)
  next
    case (Some x)
    with Cons.prems(1) have x: "newline \<notin> set x" by (auto simp: nl_free_def)
    have step: "save_loop redir_titles extracts (p # rest) st
        = save_loop redir_titles extracts rest
            (st\<lparr>out_file := out_file st @ [record_line e ?t1 x],
                fetched_count := fetched_count st + 1\<rparr>)"
      using Some p by (simp add: Let_def record_line_def)
    from Cons.IH [OF Cons.prems(1) fetch_inv_fetched [OF Cons.prems(2) [unfolded p] x]]
    show ?thesis unfolding step .
  qed
qed

lemma save_chunk_inv:
  assumes inv: "fetch_inv ents pending st"
    and run: "save_chunk net tp td pending st = Some (Inr st')"
  shows "fetch_inv ents [] st'"
proof -
  from run obtain q pgs ex redir ex' n where
    g: "get_extracts_from_pages pgs = Inr ex"
    and c: "continue_loop net tp td ex (calls st) = Some (Inr (ex', n))"
    and s: "st' = save_loop redir ex' pending (st\<lparr>calls := n\<rparr>)"
    unfolding save_chunk_def by (auto split: option.splits sum.splits prod.splits)
  from g have "nl_free ex" by (rule get_extracts_nl)
  with continue_loop_nl [OF c] have "nl_free ex'" by blast
  from save_loop_inv [OF this, of ents pending "st\<lparr>calls := n\<rparr>" redir] inv s
  show ?thesis by (simp add: fetch_inv_calls)
qed

lemma fetch_chunk_inv:
  assumes inv: "fetch_inv ents [] st"
    and run: "fetch_chunk net to_fetch st = Some (Inr st')"
  shows "fetch_inv (ents @ to_fetch) [] st'"
proof -
  from run obtain link_data ent_pages st1 td n2 where
    l: "link_loop link_data to_fetch [] st = Inr (ent_pages, st1)"
    and s: "save_chunk net (join ''|'' (map snd ent_pages)) td ent_pages (st1\<lparr>calls := n2\<rparr>)
            = Some (Inr st')"
    unfolding fetch_chunk_def Let_def
    by (auto split: option.splits sum.splits prod.splits)
  from link_loop_inv [OF inv l] have "fetch_inv (ents @ to_fetch) ent_pages (st1\<lparr>calls := n2\<rparr>)"
    by (simp add: fetch_inv_calls)
  from save_chunk_inv [OF this s] show ?thesis .
qed

lemma chunk_loop_inv:
  "fetch_inv ents [] st \<Longrightarrow> chunk_loop net chunks st = Some (Inr st') \<Longrightarrow>
   fetch_inv (ents @ concat chunks) [] st'"
proof (induction chunks arbitrary: ents st)
  case Nil
  then show ?case by simp
next
  case (Cons to_fetch rest)
  from Cons.prems(2) obtain st1 where
    f: "fetch_chunk net to_fetch st = Some (Inr st1)"
    and r: "chunk_loop net rest st1 = Some (Inr st')"
    by (auto split: option.splits sum.splits)
  from Cons.IH [OF fetch_chunk_inv [OF Cons.prems(1) f] r] show ?case by simp
qed

lemma record_line_single:
  "newline \<notin> set e \<Longrightarrow> newline \<notin> set t \<Longrightarrow> newline \<notin> set x \<Longrightarrow>
   newline \<notin> set (butlast (record_line e t x))"
  by (simp add: record_line_def butlast_append newline_def)

lemma answers_iff:
  "answers net req n k b = ((\<forall>j<k. net (n + j) req = ConnError) \<and> net (n + k) req = Response b)"
  by (auto simp: answers_def list_all_iff)

lemma get_retry_answers:
  assumes "answers net req n k b"
  shows "get_retry net req delay n slept = Some (Inr (b, n + k + 1, slept + k * delay))"
proof -
  from assms have a: "\<forall>j<k. net (n + j) req = ConnError" and r: "net (n + k) req = Response b"
    by (simp_all add: answers_iff)
  from a have "get_retry net req delay n slept
      = get_retry net req delay (n + k) (slept + k * delay)"
    by (rule get_retry_skip)
  also from r have "\<dots> = Some (Inr (b, n + k + 1, slept + k * delay))"
    by (subst get_retry.simps) simp
  finally show ?thesis .
qed

lemma get_retry_Inr:
  assumes "get_retry net req delay n slept = Some y"
  shows "\<forall>b n' s'. y = Inr (b, n', s') \<longrightarrow>
           (\<exists>k. answers net req n k b \<and> n' = n + k + 1 \<and> s' = slept + k * delay)"
  using assms
proof (rule get_retry.raw_induct
    [where P = "\<lambda>net req delay (n :: nat) slept y.
       \<forall>b n' s'. y = Inr (b, n', s') \<longrightarrow>
           (\<exists>k. answers net req n k b \<and> n' = n + k + 1 \<and> s' = slept + k * delay)", rotated])
  fix gr and net :: "'a network" and req delay and n :: nat and slept y
  assume ih: "\<And>(net :: 'a network) req delay (n :: nat) slept y.
        gr net req delay n slept = Some y \<Longrightarrow>
          \<forall>b n' s'. y = Inr (b, n', s') \<longrightarrow>
           (\<exists>k. answers net req n k b \<and> n' = n + k + 1 \<and> s' = slept + k * delay)"
    and body: "(case net n req of
        Response r \<Rightarrow> Some (Inr (r, n + 1, slept))
      | ConnError \<Rightarrow> gr net req delay (n + 1) (slept + delay)
      | OtherError \<Rightarrow> Some (Inl RequestError)) = Some y"
  show "\<forall>b n' s'. y = Inr (b, n', s') \<longrightarrow>
           (\<exists>k. answers net req n k b \<and> n' = n + k + 1 \<and> s' = slept + k * delay)"
  proof (intro allI impI)
    fix b n' s'
    assume y: "y = Inr (b, n', s')"
    show "\<exists>k. answers net req n k b \<and> n' = n + k + 1 \<and> s' = slept + k * delay"
    proof (cases "net n req")
      case (Response r)
      with body y have "r = b" "n' = n + 1" "s' = slept" by simp_all
      with Response have "answers net req n 0 b \<and> n' = n + 0 + 1 \<and> s' = slept + 0 * delay"
        by (simp add: answers_iff)
      then show ?thesis by blast
    next
      case ConnError
      with body have "gr net req delay (n + 1) (slept + delay) = Some y" by simp
      from ih [OF this] y obtain k where
        k: "answers net req (n + 1) k b" "n' = n + 1 + k + 1" "s' = slept + delay + k * delay"
        by blast
      have "answers net req n (Suc k) b"
        unfolding answers_iff
      proof (intro conjI allI impI)
        fix j assume "j < Suc k"
        show "net (n + j) req = ConnError"
        proof (cases j)
          case 0
          with ConnError show ?thesis by simp
        next
          case (Suc i)
          with \<open>j < Suc k\<close> k(1) show ?thesis by (simp add: answers_iff)
        qed
      next
        from k(1) show "net (n + Suc k) req = Response b" by (simp add: answers_iff)
      qed
      with k(2,3) have "answers net req n (Suc k) b \<and> n' = n + Suc k + 1
          \<and> s' = slept + Suc k * delay" by simp
      then show ?thesis by blast
    next
      case OtherError
      with body y show ?thesis by simp
    qed
  qed
qed

lemma get_retry_iff:
  "get_retry net req delay n slept = Some (Inr (b, n', s')) \<longleftrightarrow>
   (\<exists>k. answers net req n k b \<and> n' = n + k + 1 \<and> s' = slept + k * delay)"
  using get_retry_Inr [of net req delay n slept "Inr (b, n', s')"]
    get_retry_answers [of net req n _ b delay slept]
  by blast

lemma no_page_simps:
  "no_page ld [] = []"
  "no_page ld (e # es) = (if enwiki_title ld e = None then e # no_page ld es else no_page ld es)"
  by (simp_all add: no_page_def)

lemma titled_simps:
  "titled ld [] = []"
  "titled ld (e # es) =
     (case enwiki_title ld e of None \<Rightarrow> titled ld es | Some t \<Rightarrow> (e, t) # titled ld es)"
  by (simp_all add: titled_def map_filter_simps split: option.splits)

lemma link_loop_eq:
  "link_loop link_data es pending st =
     (if list_all (link_ok link_data) es
      then Inr (pending @ titled link_data es,
                st\<lparr>no_wiki_count := no_wiki_count st + length (no_page link_data es),
                    no_wifi_file := no_wifi_file st
                       @ map (\<lambda>e. e @ [newline]) (no_page link_data es)\<rparr>)
      else Inl KeyError)"
proof (induction es arbitrary: pending st)
  case Nil
  show ?case by (simp add: no_page_simps titled_simps)
next
  case (Cons e rest)
  show ?case
  proof (cases "link_data e")
    case None
    then show ?thesis by (simp add: link_ok_def)
  next
    case (Some ent)
    show ?thesis
    proof (cases "has_missing ent")
      case True
      with Some have t: "enwiki_title link_data e = None" and ok: "link_ok link_data e"
        by (simp_all add: enwiki_title_def link_ok_def ent_ok_def)
      from Some True show ?thesis
        by (simp add: Cons.IH t ok no_page_simps titled_simps)
    next
      case False
      show ?thesis
      proof (cases "sitelinks ent")
        case None
        with Some False show ?thesis by (simp add: link_ok_def ent_ok_def)
      next
        case links: (Some links)
        show ?thesis
        proof (cases "links ''enwiki''")
          case None
          with Some False links have t: "enwiki_title link_data e = None"
            and ok: "link_ok link_data e"
            by (simp_all add: enwiki_title_def link_ok_def ent_ok_def)
          from Some False links None show ?thesis
            by (simp add: Cons.IH t ok no_page_simps titled_simps)
        next
          case link: (Some link)
          show ?thesis
          proof (cases "sl_title link")
            case None
            with Some False links link show ?thesis by (simp add: link_ok_def ent_ok_def)
          next
            case (Some t)
            with \<open>link_data e = Some ent\<close> False links link
            have t: "enwiki_title link_data e = Some t" and ok: "link_ok link_data e"
              by (simp_all add: enwiki_title_def link_ok_def ent_ok_def)
            from \<open>link_data e = Some ent\<close> False links link Some show ?thesis
              by (simp add: Cons.IH t ok no_page_simps titled_simps)
          qed
        qed
      qed
    qed
  qed
qed

lemma map_snd_titled: "map snd (titled ld es) = titles_of ld es"
  by (induction es) (simp_all add: titled_simps titles_of_def map_filter_simps split: option.splits)

lemma find_append:
  "find P (xs @ ys) = (case find P xs of None \<Rightarrow> find P ys | Some x \<Rightarrow> Some x)"
  by (induction xs) simp_all

lemma find_SomeD: "find P xs = Some x \<Longrightarrow> P x \<and> x \<in> set xs"
  by (induction xs) (auto split: if_splits)

lemma page_text_Nil: "page_text [] = Map.empty"
  by (rule ext) (simp add: page_text_def)

lemma page_text_append: "page_text (a @ b) = page_text a ++ page_text b"
proof (rule ext)
  fix t
  let ?P = "\<lambda>pg. page_title pg = Some t \<and> page_extract pg \<noteq> None"
  show "page_text (a @ b) t = (page_text a ++ page_text b) t"
  proof (cases "find ?P (rev b)")
    case None
    then show ?thesis by (simp add: page_text_def find_append map_add_def)
  next
    case (Some pg)
    from find_SomeD [OF Some] obtain x where "page_extract pg = Some x" by auto
    with Some show ?thesis by (simp add: page_text_def find_append map_add_def)
  qed
qed

lemma page_text_single:
  "page_text [pg] =
     (case page_extract pg of
        None \<Rightarrow> Map.empty
      | Some x \<Rightarrow> (case page_title pg of None \<Rightarrow> Map.empty
                   | Some t \<Rightarrow> [t \<mapsto> replace_newlines x]))"
  by (rule ext) (auto simp: page_text_def split: option.splits)

lemma page_text_Cons: "page_text (pg # rest) = page_text [pg] ++ page_text rest"
  using page_text_append [of "[pg]" rest] by simp

lemma get_extracts_loop_eq:
  "get_extracts_loop pgs ex =
     (if pages_ok pgs then Inr (ex ++ page_text pgs) else Inl KeyError)"
proof (induction pgs arbitrary: ex)
  case Nil
  show ?case by (simp add: pages_ok_def page_text_Nil)
next
  case (Cons pg rest)
  have ok: "pages_ok (pg # rest) =
     ((case page_extract pg of None \<Rightarrow> True | Some x \<Rightarrow> page_title pg \<noteq> None) \<and> pages_ok rest)"
    by (simp add: pages_ok_def)
  show ?case
  proof (cases "page_extract pg")
    case None
    then show ?thesis
      by (simp add: Cons.IH ok page_text_Cons [of pg rest] page_text_single)
  next
    case (Some x)
    show ?thesis
    proof (cases "page_title pg")
      case None
      with Some show ?thesis by (simp add: ok Let_def)
    next
      case t: (Some t)
      have "ex(t \<mapsto> replace_newlines x) ++ page_text rest
            = ex ++ ([t \<mapsto> replace_newlines x] ++ page_text rest)"
        by (rule ext) (simp add: map_add_def split: option.splits)
      with Some t show ?thesis
        by (simp add: Cons.IH ok Let_def page_text_Cons [of pg rest] page_text_single)
    qed
  qed
qed

lemma get_extracts_from_pages_eq:
  "get_extracts_from_pages pgs = (if pages_ok pgs then Inr (page_text pgs) else Inl KeyError)"
  by (simp add: get_extracts_from_pages_def get_extracts_loop_eq)

lemma redirect_map_Nil: "redirect_map [] = Map.empty"
  by (rule ext) (simp add: redirect_map_def)

lemma redirect_map_Cons:
  "redirect_map (r # rest) t =
     (case find (\<lambda>r. r_from r = Some t) (rev rest) of
        None \<Rightarrow> (if r_from r = Some t then r_to r else None)
      | Some r' \<Rightarrow> r_to r')"
  by (simp add: redirect_map_def find_append split: option.splits)

lemma redirect_map_ok:
  assumes "list_all (\<lambda>r. r_from r \<noteq> None \<and> r_to r \<noteq> None) rs"
    and "find (\<lambda>r. r_from r = Some t) (rev rs) = Some r"
  shows "r_to r \<noteq> None"
proof -
  from find_SomeD [OF assms(2)] have "r \<in> set (rev rs)" by simp
  with assms(1) show ?thesis by (auto simp: list_all_iff)
qed

lemma redirect_dict_eq:
  "redirect_dict rs d =
     (if list_all (\<lambda>r. r_from r \<noteq> None \<and> r_to r \<noteq> None) rs
      then Inr (d ++ redirect_map rs) else Inl KeyError)"
proof (induction rs arbitrary: d)
  case Nil
  show ?case by (simp add: redirect_map_Nil)
next
  case (Cons r rest)
  show ?case
  proof (cases "r_from r")
    case None
    then show ?thesis by simp
  next
    case (Some f)
    show ?thesis
    proof (cases "r_to r")
      case None
      with Some show ?thesis by simp
    next
      case t: (Some t')
      show ?thesis
      proof (cases "list_all (\<lambda>r. r_from r \<noteq> None \<and> r_to r \<noteq> None) rest")
        case False
        with Some t show ?thesis by (simp add: Cons.IH)
      next
        case True
        have "d(f \<mapsto> t') ++ redirect_map rest = d ++ redirect_map (r # rest)"
        proof (rule ext)
          fix x
          show "(d(f \<mapsto> t') ++ redirect_map rest) x = (d ++ redirect_map (r # rest)) x"
          proof (cases "find (\<lambda>r. r_from r = Some x) (rev rest)")
            case None
            then have a: "redirect_map rest x = None" by (simp add: redirect_map_def)
            from None Some t have b: "redirect_map (r # rest) x = (if f = x then Some t' else None)"
              by (simp add: redirect_map_Cons)
            show ?thesis by (simp add: map_add_def a b)
          next
            case found: (Some r')
            from redirect_map_ok [OF True found] obtain y where y: "r_to r' = Some y" by auto
            from found y have a: "redirect_map rest x = Some y" by (simp add: redirect_map_def)
            from found y have b: "redirect_map (r # rest) x = Some y"
              by (simp add: redirect_map_Cons)
            show ?thesis by (simp add: map_add_def a b)
          qed
        qed
        with Some t True show ?thesis by (simp add: Cons.IH)
      qed
    qed
  qed
qed

lemma read_redirects_eq:
  "read_redirects q =
     (if redirects_ok q
      then Inr (case redirects q of None \<Rightarrow> Map.empty | Some rs \<Rightarrow> redirect_map rs)
      else Inl KeyError)"
  by (simp add: read_redirects_def redirects_ok_def redirect_dict_eq redirect_map_Nil
        split: option.splits list.splits)

lemma pages_of_simps:
  "pages_of [] = []"
  "pages_of (b # bs) = (case body_pages b of None \<Rightarrow> [] | Some pgs \<Rightarrow> pgs) @ pages_of bs"
  by (simp_all add: pages_of_def)

lemma continuation_run:
  assumes "continuation net tp n b bs" and "bodies_ok bs"
  shows "continue_loop net tp b ex n = Some (Inr (ex ++ page_text (pages_of bs), n + length bs))"
  using assms
proof (induction arbitrary: ex rule: continuation.induct)
  case (last_body b net tp n)
  then show ?case
    by (subst continue_loop.simps) (simp add: pages_of_simps page_text_Nil)
next
  case (next_body b c net n tp b' bs)
  from next_body.prems obtain q pgs where q: "query b' = Some q" "pages q = Some pgs"
    "pages_ok pgs" and rest: "bodies_ok bs"
    by (auto simp: bodies_ok_def body_pages_def split: option.splits)
  from q have bp: "body_pages b' = Some pgs" by (simp add: body_pages_def)
  have "continue_loop net tp b ex n = continue_loop net tp b' (ex ++ page_text pgs) (n + 1)"
    using next_body.hyps(1,2) q
    by (subst continue_loop.simps) (simp add: get_extracts_from_pages_eq)
  also have "\<dots> = Some (Inr (ex ++ page_text pgs ++ page_text (pages_of bs), n + 1 + length bs))"
    by (rule next_body.IH [OF rest])
  finally show ?case
    by (simp add: pages_of_simps bp page_text_append)
qed

lemma continue_loop_Inr:
  fixes net :: "'c network" and b :: "'c body"
  assumes "continue_loop net tp b ex n = Some y"
  shows "\<forall>ex' n'. y = Inr (ex', n') \<longrightarrow>
     (\<exists>bs. continuation net tp n b bs \<and> bodies_ok bs
           \<and> ex' = ex ++ page_text (pages_of bs) \<and> n' = n + length bs)"
  using assms
proof (rule continue_loop.raw_induct
    [where P = "\<lambda>(net :: 'c network) tp (b :: 'c body) ex (n :: nat) y.
        \<forall>ex' n'. y = Inr (ex', n') \<longrightarrow>
     (\<exists>bs. continuation net tp n b bs \<and> bodies_ok bs
           \<and> ex' = ex ++ page_text (pages_of bs) \<and> n' = n + length bs)", rotated])
  fix cl and net :: "'c network" and tp and b :: "'c body"
    and ex :: "string \<rightharpoonup> string" and n :: nat and y
  assume ih: "\<And>(net :: 'c network) tp (b :: 'c body) (ex :: string \<rightharpoonup> string) (n :: nat) y.
        cl net tp b ex n = Some y \<Longrightarrow>
        \<forall>ex' n'. y = Inr (ex', n') \<longrightarrow>
     (\<exists>bs. continuation net tp n b bs \<and> bodies_ok bs
           \<and> ex' = ex ++ page_text (pages_of bs) \<and> n' = n + length bs)"
    and body: "(case continue b of
        None \<Rightarrow> Some (Inr (ex, n))
      | Some c \<Rightarrow>
          (case net n (Continuation c tp) of
             ConnError \<Rightarrow> Some (Inl ConnectionError)
           | OtherError \<Rightarrow> Some (Inl RequestError)
           | Response text_data' \<Rightarrow>
               (case query text_data' of
                  None \<Rightarrow> Some (Inl KeyError)
                | Some q \<Rightarrow>
                    (case pages q of
                       None \<Rightarrow> Some (Inl KeyError)
                     | Some pgs \<Rightarrow>
                         (case get_extracts_from_pages pgs of
                            Inl e \<Rightarrow> Some (Inl e)
                          | Inr new_extracts \<Rightarrow>
                              cl net tp text_data' (ex ++ new_extracts) (n + 1)))))) = Some y"
  show "\<forall>ex' n'. y = Inr (ex', n') \<longrightarrow>
     (\<exists>bs. continuation net tp n b bs \<and> bodies_ok bs
           \<and> ex' = ex ++ page_text (pages_of bs) \<and> n' = n + length bs)"
  proof (intro allI impI)
    fix ex' :: "string \<rightharpoonup> string" and n' :: nat
    assume y: "y = Inr (ex', n')"
    show "\<exists>bs. continuation net tp n b bs \<and> bodies_ok bs
           \<and> ex' = ex ++ page_text (pages_of bs) \<and> n' = n + length bs"
    proof (cases "continue b")
      case None
      with body y have "ex' = ex" "n' = n" by simp_all
      with None have "continuation net tp n b [] \<and> bodies_ok []
           \<and> ex' = ex ++ page_text (pages_of []) \<and> n' = n + length ([] :: 'c body list)"
        by (simp add: continuation.last_body bodies_ok_def pages_of_simps page_text_Nil)
      then show ?thesis by blast
    next
      case (Some c)
      with body y obtain b' q pgs new where
        r: "net n (Continuation c tp) = Response b'"
        and q: "query b' = Some q" "pages q = Some pgs"
        and g: "get_extracts_from_pages pgs = Inr new"
        and c: "cl net tp b' (ex ++ new) (n + 1) = Some (Inr (ex', n'))"
        by (auto split: outcome.splits option.splits sum.splits)
      from g have ok: "pages_ok pgs" and new: "new = page_text pgs"
        by (auto simp: get_extracts_from_pages_eq split: if_splits)
      from q have bp: "body_pages b' = Some pgs" by (simp add: body_pages_def)
      from ih [OF c] obtain bs where
        bs: "continuation net tp (n + 1) b' bs" "bodies_ok bs"
        "ex' = ex ++ new ++ page_text (pages_of bs)" "n' = n + 1 + length bs"
        by blast
      from Some r bs(1) have "continuation net tp n b (b' # bs)"
        by (rule continuation.next_body)
      moreover from bs(2) ok bp have "bodies_ok (b' # bs)" by (simp add: bodies_ok_def)
      moreover from bs(3) new bp have "ex' = ex ++ page_text (pages_of (b' # bs))"
        by (simp add: pages_of_simps page_text_append)
      moreover from bs(4) have "n' = n + length (b' # bs)" by simp
      ultimately show ?thesis by blast
    qed
  qed
qed

lemma redirect_target_dict:
  "(case redirect_dict_of q t of Some t' \<Rightarrow> t' | None \<Rightarrow> t) = redirect_target q t"
  by (simp add: redirect_dict_of_def redirect_target_def split: option.splits)

lemma save_loop_eq:
  "save_loop (redirect_dict_of q) ex pend st =
     st\<lparr>out_file := out_file st @
           concat (map (\<lambda>(e, t0). case ex (redirect_target q t0) of
                          None \<Rightarrow> []
                        | Some x \<Rightarrow> [record_line e (redirect_target q t0) x]) pend),
        fetched_count := fetched_count st +
           length (filter (\<lambda>(e, t0). ex (redirect_target q t0) \<noteq> None) pend),
        no_wiki_count := no_wiki_count st +
           length (filter (\<lambda>(e, t0). ex (redirect_target q t0) = None) pend),
        no_wifi_file := no_wifi_file st @
           map (\<lambda>(e, t0). e @ [newline])
             (filter (\<lambda>(e, t0). ex (redirect_target q t0) = None) pend)\<rparr>"
proof (induction pend arbitrary: st)
  case Nil
  show ?case by simp
next
  case (Cons p rest)
  obtain e t0 where p: "p = (e, t0)" by (cases p)
  show ?case
  proof (cases "ex (redirect_target q t0)")
    case None
    then show ?thesis
      unfolding p by (simp add: Cons.IH Let_def redirect_target_dict)
  next
    case (Some x)
    then show ?thesis
      unfolding p by (simp add: Cons.IH Let_def redirect_target_dict record_line_def)
  qed
qed

lemma titled_found:
  "concat (map (\<lambda>(e, t0). case page_text pgs (redirect_target q t0) of
                          None \<Rightarrow> []
                        | Some x \<Rightarrow> [record_line e (redirect_target q t0) x]) (titled ld es))
   = map (\<lambda>e. case the (description ld q pgs e) of (t, x) \<Rightarrow> record_line e t x)
       (filter (\<lambda>e. description ld q pgs e \<noteq> None) es)"
  by (induction es) (auto simp: titled_simps description_def split: option.splits)

lemma titled_found_length:
  "length (filter (\<lambda>(e, t0). page_text pgs (redirect_target q t0) \<noteq> None) (titled ld es))
   = length (filter (\<lambda>e. description ld q pgs e \<noteq> None) es)"
  by (induction es) (auto simp: titled_simps description_def split: option.splits)

lemma titled_no_text:
  "map (\<lambda>(e, t0). e @ [newline])
     (filter (\<lambda>(e, t0). page_text pgs (redirect_target q t0) = None) (titled ld es))
   = map (\<lambda>e. e @ [newline])
       (filter (\<lambda>e. enwiki_title ld e \<noteq> None \<and> description ld q pgs e = None) es)"
  by (induction es) (auto simp: titled_simps description_def split: option.splits)

lemma titled_no_text_length:
  "length (filter (\<lambda>(e, t0). page_text pgs (redirect_target q t0) = None) (titled ld es))
   = length (filter (\<lambda>e. enwiki_title ld e \<noteq> None \<and> description ld q pgs e = None) es)"
  using arg_cong [OF titled_no_text [of pgs q ld es], of length] by simp

lemma chunk_written_eq:
  "save_loop (redirect_dict_of q) (page_text pgs) (titled ld es)
     (st\<lparr>no_wiki_count := no_wiki_count st + length (no_page ld es),
         no_wifi_file := no_wifi_file st @ map (\<lambda>e. e @ [newline]) (no_page ld es),
         calls := n\<rparr>)
   = chunk_written ld q pgs es n st"
  unfolding save_loop_eq titled_found titled_found_length titled_no_text titled_no_text_length
  by (cases st) (simp add: chunk_written_def Let_def no_page_def)

lemma save_chunk_iff:
  fixes net :: "'c network"
  shows "save_chunk net tp b2 pend st = Some (Inr st') \<longleftrightarrow>
     (\<exists>q pgs bs. query b2 = Some q \<and> pages q = Some pgs \<and> pages_ok pgs \<and> redirects_ok q
        \<and> continuation net tp (calls st) b2 bs \<and> bodies_ok bs
        \<and> st' = save_loop (redirect_dict_of q) (page_text (pgs @ pages_of bs)) pend
                  (st\<lparr>calls := calls st + length bs\<rparr>))"
proof
  assume run: "save_chunk net tp b2 pend st = Some (Inr st')"
  from run obtain q pgs ex redir ex' n where
    q: "query b2 = Some q" "pages q = Some pgs"
    and g: "get_extracts_from_pages pgs = Inr ex"
    and r: "read_redirects q = Inr redir"
    and c: "continue_loop net tp b2 ex (calls st) = Some (Inr (ex', n))"
    and s: "st' = save_loop redir ex' pend (st\<lparr>calls := n\<rparr>)"
    unfolding save_chunk_def by (auto split: option.splits sum.splits prod.splits)
  from g have ok: "pages_ok pgs" and ex: "ex = page_text pgs"
    by (auto simp: get_extracts_from_pages_eq split: if_splits)
  from r have rok: "redirects_ok q" and redir: "redir = redirect_dict_of q"
    by (auto simp: read_redirects_eq redirect_dict_of_def split: if_splits)
  from continue_loop_Inr [OF c] obtain bs where
    bs: "continuation net tp (calls st) b2 bs" "bodies_ok bs"
    "ex' = ex ++ page_text (pages_of bs)" "n = calls st + length bs"
    by blast
  from s redir bs(3,4) ex have
    "st' = save_loop (redirect_dict_of q) (page_text (pgs @ pages_of bs)) pend
                  (st\<lparr>calls := calls st + length bs\<rparr>)"
    by (simp add: page_text_append)
  with q ok rok bs(1,2) show "\<exists>q pgs bs. query b2 = Some q \<and> pages q = Some pgs
        \<and> pages_ok pgs \<and> redirects_ok q
        \<and> continuation net tp (calls st) b2 bs \<and> bodies_ok bs
        \<and> st' = save_loop (redirect_dict_of q) (page_text (pgs @ pages_of bs)) pend
                  (st\<lparr>calls := calls st + length bs\<rparr>)"
    by blast
next
  assume "\<exists>q pgs bs. query b2 = Some q \<and> pages q = Some pgs \<and> pages_ok pgs \<and> redirects_ok q
        \<and> continuation net tp (calls st) b2 bs \<and> bodies_ok bs
        \<and> st' = save_loop (redirect_dict_of q) (page_text (pgs @ pages_of bs)) pend
                  (st\<lparr>calls := calls st + length bs\<rparr>)"
  then obtain q pgs bs where
    q: "query b2 = Some q" "pages q = Some pgs" and ok: "pages_ok pgs" and rok: "redirects_ok q"
    and c: "continuation net tp (calls st) b2 bs" and bok: "bodies_ok bs"
    and s: "st' = save_loop (redirect_dict_of q) (page_text (pgs @ pages_of bs)) pend
                  (st\<lparr>calls := calls st + length bs\<rparr>)"
    by blast
  from ok have g: "get_extracts_from_pages pgs = Inr (page_text pgs)"
    by (simp add: get_extracts_from_pages_eq)
  from rok have r: "read_redirects q = Inr (redirect_dict_of q)"
    by (simp add: read_redirects_eq redirect_dict_of_def)
  note cl = continuation_run [OF c bok, of "page_text pgs"]
  show "save_chunk net tp b2 pend st = Some (Inr st')"
    by (simp add: save_chunk_def q g r cl s page_text_append)
qed

lemma fetch_chunk_iff:
  fixes net :: "'c network"
  shows "fetch_chunk net to_fetch st = Some (Inr st') \<longleftrightarrow> chunk_outcome net to_fetch st st'"
proof
  assume run: "fetch_chunk net to_fetch st = Some (Inr st')"
  from run obtain b1 n1 s1 link_data ent_pages st1 b2 n2 s2 where
    g1: "get_retry net (Wikidata (join ''|'' to_fetch)) 5 (calls st) 0 = Some (Inr (b1, n1, s1))"
    and e: "entities b1 = Some link_data"
    and l: "link_loop link_data to_fetch [] st = Inr (ent_pages, st1)"
    and g2: "get_retry net (Wikipedia (join ''|'' (map snd ent_pages))) 5 n1 0
             = Some (Inr (b2, n2, s2))"
    and s: "save_chunk net (join ''|'' (map snd ent_pages)) b2 ent_pages (st1\<lparr>calls := n2\<rparr>)
            = Some (Inr st')"
    unfolding fetch_chunk_def Let_def
    by (auto split: option.splits sum.splits prod.splits)
  from g1 obtain k1 where k1: "answers net (Wikidata (join ''|'' to_fetch)) (calls st) k1 b1"
    "n1 = calls st + k1 + 1"
    by (auto simp: get_retry_iff)
  from l have lok: "list_all (link_ok link_data) to_fetch"
    and ep: "ent_pages = titled link_data to_fetch"
    and st1: "st1 = st\<lparr>no_wiki_count := no_wiki_count st + length (no_page link_data to_fetch),
                    no_wifi_file := no_wifi_file st
                       @ map (\<lambda>e. e @ [newline]) (no_page link_data to_fetch)\<rparr>"
    by (auto simp: link_loop_eq split: if_splits)
  from ep have tp: "map snd ent_pages = titles_of link_data to_fetch"
    by (simp add: map_snd_titled)
  from g2 obtain k2 where
    k2: "answers net (Wikipedia (join ''|'' (titles_of link_data to_fetch))) n1 k2 b2"
    "n2 = n1 + k2 + 1"
    by (auto simp: get_retry_iff tp)
  from s obtain q pgs bs where
    q: "query b2 = Some q" "pages q = Some pgs" "pages_ok pgs" "redirects_ok q"
    and c: "continuation net (join ''|'' (titles_of link_data to_fetch)) n2 b2 bs"
    and bok: "bodies_ok bs"
    and s': "st' = save_loop (redirect_dict_of q) (page_text (pgs @ pages_of bs)) ent_pages
                  (st1\<lparr>calls := n2 + length bs\<rparr>)"
    by (auto simp: save_chunk_iff tp)
  have n2: "n2 = calls st + k1 + k2 + 2" using k1(2) k2(2) by simp
  from s' have "st' = chunk_written link_data q (pgs @ pages_of bs) to_fetch
                  (calls st + k1 + k2 + 2 + length bs) st"
    unfolding ep st1 n2 by (simp add: chunk_written_eq)
  with k1(1) e lok k2(1) q c bok show "chunk_outcome net to_fetch st st'"
    unfolding chunk_outcome_def k1(2) n2 by blast
next
  assume "chunk_outcome net to_fetch st st'"
  then obtain k1 b1 link_data k2 b2 q pgs bs where
    a1: "answers net (Wikidata (join ''|'' to_fetch)) (calls st) k1 b1"
    and e: "entities b1 = Some link_data"
    and lok: "list_all (link_ok link_data) to_fetch"
    and a2: "answers net (Wikipedia (join ''|'' (titles_of link_data to_fetch)))
             (calls st + k1 + 1) k2 b2"
    and q: "query b2 = Some q" "pages q = Some pgs" "pages_ok pgs" "redirects_ok q"
    and c: "continuation net (join ''|'' (titles_of link_data to_fetch))
             (calls st + k1 + k2 + 2) b2 bs"
    and bok: "bodies_ok bs"
    and s: "st' = chunk_written link_data q (pgs @ pages_of bs) to_fetch
                  (calls st + k1 + k2 + 2 + length bs) st"
    unfolding chunk_outcome_def by blast
  let ?st1 = "st\<lparr>no_wiki_count := no_wiki_count st + length (no_page link_data to_fetch),
                    no_wifi_file := no_wifi_file st
                       @ map (\<lambda>e. e @ [newline]) (no_page link_data to_fetch)\<rparr>"
  let ?tp = "join ''|'' (titles_of link_data to_fetch)"
  note g1 = get_retry_answers [OF a1, of 5 0]
  from lok have l: "link_loop link_data to_fetch [] st = Inr (titled link_data to_fetch, ?st1)"
    by (simp add: link_loop_eq)
  note g2 = get_retry_answers [OF a2, of 5 0]
  have n: "calls st + k1 + 1 + k2 + 1 = calls st + k1 + k2 + 2" by simp
  have "save_chunk net ?tp b2 (titled link_data to_fetch) (?st1\<lparr>calls := calls st + k1 + k2 + 2\<rparr>)
        = Some (Inr st')"
    unfolding save_chunk_iff
  proof (intro exI conjI)
    show "query b2 = Some q" "pages q = Some pgs" "pages_ok pgs" "redirects_ok q"
      "bodies_ok bs" by (fact q bok)+
    show "continuation net ?tp (calls (?st1\<lparr>calls := calls st + k1 + k2 + 2\<rparr>)) b2 bs"
      using c by simp
    show "st' = save_loop (redirect_dict_of q) (page_text (pgs @ pages_of bs))
             (titled link_data to_fetch)
             (?st1\<lparr>calls := calls st + k1 + k2 + 2,
                    calls := calls (?st1\<lparr>calls := calls st + k1 + k2 + 2\<rparr>) + length bs\<rparr>)"
      unfolding s by (simp add: chunk_written_eq)
  qed
  then show "fetch_chunk net to_fetch st = Some (Inr st')"
    unfolding fetch_chunk_def Let_def g1 option.case sum.case prod.case e l g2
      map_snd_titled n .
qed

lemma chunk_loop_iff:
  fixes net :: "'c network"
  shows "chunk_loop net chunks st = Some (Inr st') \<longleftrightarrow> run_outcome net chunks st st'"
proof (induction chunks arbitrary: st)
  case Nil
  show ?case by auto
next
  case (Cons to_fetch rest)
  show ?case
  proof
    assume "chunk_loop net (to_fetch # rest) st = Some (Inr st')"
    then obtain st1 where
      f: "fetch_chunk net to_fetch st = Some (Inr st1)"
      and r: "chunk_loop net rest st1 = Some (Inr st')"
      by (auto split: option.splits sum.splits)
    from f have "chunk_outcome net to_fetch st st1" by (simp add: fetch_chunk_iff)
    moreover from r have "run_outcome net rest st1 st'" by (simp add: Cons.IH)
    ultimately show "run_outcome net (to_fetch # rest) st st'" by auto
  next
    assume "run_outcome net (to_fetch # rest) st st'"
    then obtain st1 where "chunk_outcome net to_fetch st st1" "run_outcome net rest st1 st'"
      by auto
    then have "fetch_chunk net to_fetch st = Some (Inr st1)"
      "chunk_loop net rest st1 = Some (Inr st')"
      by (simp_all add: fetch_chunk_iff Cons.IH)
    then show "chunk_loop net (to_fetch # rest) st = Some (Inr st')" by simp
  qed
qed

lemma retrieve_four: "retrieve_pages net_wiki four_lines = Some (Inr fetched_four)"
  by (simp add: retrieve_pages_def four_lines_def fetched_four_def rstrip_newline_def newline_def
        MAX_ENTITIES_def batches.simps fetch_chunk_def save_chunk_def get_retry.simps
        continue_loop.simps net_wiki_def wd_body_def wp_body_def wp_more_def wp_query_def
        read_redirects_def get_extracts_from_pages_def replace_newlines_def Let_def)

section \<open>The claims\<close>

subsection \<open>C1\<close>

text \<open>
  Claim C1, as amended. Provided the embedding table is built (or the dataset has no
  text), at least one batch is visited and the visited triples are entities of the
  model, the evaluator reports, in exact arithmetic, the unweighted mean over the
  visited batches of each batch's mean of 1/rank and of each batch's fraction of
  ranks at most 10, both taken over the head and tail substitutions of the batch.
  When, in addition, all visited batches have the same size \<open>n\<close>, the two reported
  values are the mean of 1/rank and the fraction of ranks at most 10 over all head
  and tail substitutions of the visited triples.
\<close>

theorem eval_reports_overall_metrics:
  assumes build: "build_ent_emb (model st) ld = Some (Inr (tab, w))"
    and vis: "visited mx 0 (iterate ld) \<noteq> []"
    and rng: "triples_in_range (model st) (concat (visited mx 0 (iterate ld)))"
  shows "eval_link_prediction st ld epoch prefix mx =
     Some (Inr (st\<lparr>run_log := run_log st @
       [(prefix @ ''_valid_mrr'',
         sum_list (map (\<lambda>b. overall_mrr (substitutions (model st) tab b))
                     (visited mx 0 (iterate ld)))
         / real (length (visited mx 0 (iterate ld))), epoch),
        (prefix @ ''_valid_hits@10'',
         sum_list (map (\<lambda>b. overall_hits_at 10 (substitutions (model st) tab b))
                     (visited mx 0 (iterate ld)))
         / real (length (visited mx 0 (iterate ld))), epoch)]\<rparr>))
   \<and> (list_all (\<lambda>b. length b = n) (visited mx 0 (iterate ld)) \<longrightarrow>
      eval_link_prediction st ld epoch prefix mx =
        Some (Inr (st\<lparr>run_log := run_log st @
          [(prefix @ ''_valid_mrr'',
            overall_mrr (substitutions (model st) tab (concat (visited mx 0 (iterate ld)))),
            epoch),
           (prefix @ ''_valid_hits@10'',
            overall_hits_at 10
              (substitutions (model st) tab (concat (visited mx 0 (iterate ld)))),
            epoch)]\<rparr>)))"
proof -
  have gen: "eval_link_prediction st ld epoch prefix mx =
     Some (Inr (st\<lparr>run_log := run_log st @
       [(prefix @ ''_valid_mrr'',
         sum_list (map (\<lambda>b. overall_mrr (substitutions (model st) tab b))
                     (visited mx 0 (iterate ld)))
         / real (length (visited mx 0 (iterate ld))), epoch),
        (prefix @ ''_valid_hits@10'',
         sum_list (map (\<lambda>b. overall_hits_at 10 (substitutions (model st) tab b))
                     (visited mx 0 (iterate ld)))
         / real (length (visited mx 0 (iterate ld))), epoch)]\<rparr>))"
    using vis rng
    by (simp add: eval_link_prediction_unfold [OF build] ranking_metrics_visited
          triples_in_range_concat)
  show ?thesis
  proof (intro conjI impI)
    show "eval_link_prediction st ld epoch prefix mx =
     Some (Inr (st\<lparr>run_log := run_log st @
       [(prefix @ ''_valid_mrr'',
         sum_list (map (\<lambda>b. overall_mrr (substitutions (model st) tab b))
                     (visited mx 0 (iterate ld)))
         / real (length (visited mx 0 (iterate ld))), epoch),
        (prefix @ ''_valid_hits@10'',
         sum_list (map (\<lambda>b. overall_hits_at 10 (substitutions (model st) tab b))
                     (visited mx 0 (iterate ld)))
         / real (length (visited mx 0 (iterate ld))), epoch)]\<rparr>))"
      by (rule gen)
  next
    assume eq: "list_all (\<lambda>b. length b = n) (visited mx 0 (iterate ld))"
    show "eval_link_prediction st ld epoch prefix mx =
        Some (Inr (st\<lparr>run_log := run_log st @
          [(prefix @ ''_valid_mrr'',
            overall_mrr (substitutions (model st) tab (concat (visited mx 0 (iterate ld)))),
            epoch),
           (prefix @ ''_valid_hits@10'',
            overall_hits_at 10
              (substitutions (model st) tab (concat (visited mx 0 (iterate ld)))),
            epoch)]\<rparr>))"
      unfolding gen
      by (simp add: mean_of_equal_batches_hits [OF eq] mean_of_equal_batches_mrr [OF eq])
  qed
qed

theorem eval_reports_overall_metrics_witness:
  "build_ent_emb (model ex_state) ld_two = Some (Inr (None, []))
   \<and> visited None 0 (iterate ld_two) \<noteq> []
   \<and> triples_in_range (model ex_state) (concat (visited None 0 (iterate ld_two)))
   \<and> list_all (\<lambda>b. length b = 1) (visited None 0 (iterate ld_two))
   \<and> eval_link_prediction ex_state ld_two 1 ''valid'' None =
       Some (Inr (ex_state\<lparr>run_log :=
         [(''valid_valid_mrr'', 3 / 4, 1), (''valid_valid_hits@10'', 1, 1)]\<rparr>))
   \<and> overall_mrr (substitutions (model ex_state) None
        (concat (visited None 0 (iterate ld_two)))) = 3 / 4
   \<and> overall_hits_at 10 (substitutions (model ex_state) None
        (concat (visited None 0 (iterate ld_two)))) = 1
   \<and> build_ent_emb (model ex_state) ld_three = Some (Inr (None, []))
   \<and> visited None 0 (iterate ld_three) = [[(0, 0, 0), (0, 0, 1)], [(1, 1, 0)]]
   \<and> triples_in_range (model ex_state) (concat (visited None 0 (iterate ld_three)))
   \<and> eval_link_prediction ex_state ld_three 1 ''valid'' None =
       Some (Inr (ex_state\<lparr>run_log :=
         [(''valid_valid_mrr'', (1 / 2 + 1) / 2, 1), (''valid_valid_hits@10'', (1 + 1) / 2, 1)]\<rparr>))
   \<and> overall_mrr (substitutions (model ex_state) None [(0, 0, 0), (0, 0, 1)]) = 1
   \<and> overall_mrr (substitutions (model ex_state) None [(1, 1, 0)]) = 1 / 2"
proof -
  have v: "visited None 0 (iterate ld_two) \<noteq> []"
    by (simp add: iterate_ld_two visited_def)
  have r: "triples_in_range (model ex_state) (concat (visited None 0 (iterate ld_two)))"
    by (simp add: iterate_ld_two visited_def ex_in_range)
  have e: "list_all (\<lambda>b. length b = 1) (visited None 0 (iterate ld_two))"
    by (simp add: iterate_ld_two visited_def)
  have c: "concat (visited None 0 (iterate ld_two)) = [(0, 0, 0), (1, 1, 0)]"
    by (simp add: iterate_ld_two visited_def)
  have l: "run_log ex_state = []" by (rule run_log_ex_state)
  have v3: "visited None 0 (iterate ld_three) = [[(0, 0, 0), (0, 0, 1)], [(1, 1, 0)]]"
    by (simp add: iterate_ld_three visited_def)
  have v3': "visited None 0 (iterate ld_three) \<noteq> []"
    by (simp add: v3)
  have r3: "triples_in_range (model ex_state) (concat (visited None 0 (iterate ld_three)))"
    by (simp add: v3 ex_in_range)
  note two = eval_reports_overall_metrics [where n = 1 and epoch = 1 and prefix = "''valid''",
    OF build_ld_two v r, THEN conjunct2, rule_format, OF e]
  note three = eval_reports_overall_metrics [where epoch = 1 and prefix = "''valid''",
    OF build_ld_three v3' r3, THEN conjunct1]
  show ?thesis
    using two three build_ld_two build_ld_three v r e r3
    by (simp add: c v3 ex_overall l)
qed

text \<open>
  Claim C1 as stated fails: on three triples in batches of two the evaluator reports
  the mean of the two batch means, 3/4, and the mean of 1/rank over the six
  substitutions is 5/6.
\<close>

theorem eval_batch_mean_counterexample:
  "eval_link_prediction ex_state ld_three 1 ''valid'' None =
     Some (Inr (ex_state\<lparr>run_log :=
       [(''valid_valid_mrr'', 3 / 4, 1), (''valid_valid_hits@10'', 1, 1)]\<rparr>))
   \<and> overall_mrr (substitutions (model ex_state) None (triples (dataset ld_three))) = 5 / 6"
  by (simp add: eval_link_prediction_unfold [OF build_ld_three] ranking_metrics_visited
        iterate_ld_three visited_def ex_in_range ex_overall run_log_ex_state)
     (simp add: ld_three_def ex_dataset_def ex_overall)

subsection \<open>C2\<close>

text \<open>
  Claim C2, as amended. When the ranking loop returns, the (row, true entity) pairs
  handed to the metrics are, as a multiset, exactly the substitutions of the triples
  of the visited batches: for each such triple the energies of all entities of
  \<open>[0, num_entities)\<close> as tail, paired with its true tail, and the energies of all
  entities as head, paired with its true head. The visited batches are all batches
  without \<open>max_num_batches\<close>, and the first \<open>max_num_batches\<close> batches with it.
\<close>

theorem ranking_scores_all_candidates:
  assumes "ranking_metrics m tab mx bts = Inr acc"
  shows "mset (pairs_scored acc) = mset (substitutions m tab (concat (visited mx 0 bts)))"
  unfolding pairs_scored_def pairs_scored_metrics [OF assms] by (rule mset_pairs_batches)

theorem ranking_scores_all_candidates_witness:
  "ranking_metrics (model ex_state) None None (iterate ld_two) = Inr acc_two
   \<and> mset (pairs_scored acc_two)
     = mset (substitutions (model ex_state) None (concat (visited None 0 (iterate ld_two))))"
  using ranking_scores_all_candidates [OF metrics_ld_two] metrics_ld_two by simp

text \<open>
  Claim C2 as stated fails: with \<open>max_num_batches = 1\<close> and two batches, the triple
  of the second batch is in the evaluation set and is never scored.
\<close>

theorem ranking_truncated_counterexample:
  "(1, 1, 0) \<in> set (triples (dataset ld_two))
   \<and> ranking_metrics (model ex_state) None (Some 1) (iterate ld_two) = Inr acc_two_cut
   \<and> tail_sub (model ex_state) None (1, 1, 0) \<notin> set (pairs_scored acc_two_cut)"
proof -
  have "(1, 1, 0) \<in> set (triples (dataset ld_two))"
    by (simp add: ld_two_def ex_dataset_def)
  moreover have "tail_sub (model ex_state) None (1, 1, 0) \<notin> set (pairs_scored acc_two_cut)"
    by (simp add: pairs_scored_def acc_two_cut_def tail_sub_def
          ex_state_def ex_model_def head_of_def tail_of_def rel_of_def upt_two)
  ultimately show ?thesis using metrics_ld_two_cut by simp
qed

subsection \<open>C3\<close>

text \<open>
  Claim C3 fails on the code: on a dataset with two entities and a summarizer that
  encodes every description as \<open>[1]\<close>, the table returned is the memory as
  allocated, here zeros, and not the table of the summarizer's encodings.
\<close>

theorem get_entity_summaries_unfilled:
  "get_entity_summaries zero_memory summarizer_one (ex_dataset [] True) = [[0], [0]]
   \<and> described_summaries summarizer_one (ex_dataset [] True) = [[1], [1]]"
  by (simp add: get_entity_summaries_def described_summaries_def zero_memory_def
        summarizer_one_def ex_dataset_def batches.simps upt_two eval_nat_numeral)

subsection \<open>C4\<close>

text \<open>
  Claim C4, as amended. Provided the embedding table is built (or the dataset has no
  text), the evaluator raises \<open>ZeroDivisionError\<close>, from \<open>hits / batch_count\<close>,
  exactly when no batch is visited: the loader yields none, or \<open>max_num_batches\<close> is
  0. It never raises \<open>EmptyLoaderError\<close>, and in that case it reports no metric.
\<close>

theorem eval_zero_batches:
  assumes "build_ent_emb (model st) ld = Some (Inr (tab, w))"
  shows "(eval_link_prediction st ld epoch prefix mx = Some (Inl ZeroDivisionError)
            \<longleftrightarrow> iterate ld = [] \<or> mx = Some 0)
         \<and> eval_link_prediction st ld epoch prefix mx \<noteq> Some (Inl EmptyLoaderError)"
proof -
  have "eval_link_prediction st ld epoch prefix mx = Some (Inl ZeroDivisionError)
          \<longleftrightarrow> ranking_metrics (model st) tab mx (iterate ld) = Inl ZeroDivisionError"
    by (simp add: eval_link_prediction_unfold [OF assms] split: sum.splits)
  moreover have "eval_link_prediction st ld epoch prefix mx \<noteq> Some (Inl EmptyLoaderError)"
    by (auto simp: eval_link_prediction_unfold [OF assms] split: sum.splits
             dest: ranking_metrics_error)
  ultimately show ?thesis
    by (simp add: ranking_metrics_zero visited_empty_iff)
qed

theorem eval_zero_batches_witness:
  "build_ent_emb (model ex_state) empty_loader = Some (Inr (None, []))
   \<and> eval_link_prediction ex_state empty_loader 1 ''valid'' None = Some (Inl ZeroDivisionError)"
proof -
  have b: "build_ent_emb (model ex_state) empty_loader = Some (Inr (None, []))"
    by (simp add: build_ent_emb_def empty_loader_def ex_dataset_def)
  have "iterate empty_loader = []"
    by (simp add: iterate_def empty_loader_def ex_dataset_def batches.simps)
  with eval_zero_batches [OF b, of 1 "''valid''" None] b show ?thesis by simp
qed

theorem eval_empty_loader_counterexample:
  "eval_link_prediction ex_state empty_loader 1 ''valid'' None \<noteq> Some (Inl EmptyLoaderError)
   \<and> eval_link_prediction ex_state empty_loader 1 ''valid'' None = Some (Inl ZeroDivisionError)"
  by (simp add: eval_link_prediction_def no_grad_def eval_body_def build_ent_emb_def
        ex_state_def ex_model_def ex_dataset_def empty_loader_def ranking_metrics_def
        iterate_def batches.simps)

subsection \<open>C5\<close>

text \<open>
  Claim C5, as amended. When the batch size divides the number of triples and
  \<open>max_num_batches\<close> cuts no batch off, feeding the triples in another order gives
  the same result: the same report, the same error, or no return in both runs.
\<close>

theorem eval_permutation_invariant:
  assumes perm: "mset ys = mset (triples (dataset ld))"
    and dvd: "batch_size ld dvd length (triples (dataset ld))"
    and all: "case mx of None \<Rightarrow> True | Some k \<Rightarrow> length (iterate ld) \<le> k"
  shows "eval_link_prediction st (ld\<lparr>dataset := (dataset ld)\<lparr>triples := ys\<rparr>\<rparr>) epoch prefix mx
         = eval_link_prediction st ld epoch prefix mx"
proof (rule eval_link_prediction_cong)
  let ?ld' = "ld\<lparr>dataset := (dataset ld)\<lparr>triples := ys\<rparr>\<rparr>"
  let ?xs = "triples (dataset ld)"
  let ?bs = "batch_size ld"
  let ?m = "model st"
  show "build_ent_emb ?m ?ld' = build_ent_emb ?m ld" by (rule build_ent_emb_triples)
  fix tab
  have len: "length ys = length ?xs" using perm by (rule mset_eq_length)
  have it': "iterate ?ld' = batches ?bs ys" by (simp add: iterate_def)
  have it: "iterate ld = batches ?bs ?xs" by (simp add: iterate_def)
  have lb: "length (batches ?bs ys) = length (batches ?bs ?xs)"
    using len by (rule length_batches_cong)
  have v: "visited mx 0 (batches ?bs ?xs) = batches ?bs ?xs"
    using all unfolding it by (rule visited_all)
  have v': "visited mx 0 (batches ?bs ys) = batches ?bs ys"
    using all lb unfolding it by (intro visited_all) (simp split: option.splits)
  have metrics: "map_sum id (\<lambda>a. (acc_mrr a, acc_hits a)) (ranking_metrics ?m tab mx (batches ?bs zs)) =
      (if \<not> triples_in_range ?m zs then Inl IndexError
       else if zs = [] then Inl ZeroDivisionError
       else Inr (overall_mrr (substitutions ?m tab zs),
                 overall_hits_at 10 (substitutions ?m tab zs)))"
    if z: "visited mx 0 (batches ?bs zs) = batches ?bs zs" "?bs dvd length zs" "0 < ?bs"
    for zs
  proof -
    from z have full: "list_all (\<lambda>b. length b = ?bs) (batches ?bs zs)"
      by (simp add: batches_full)
    from z have c: "concat (batches ?bs zs) = zs" by (simp add: concat_batches)
    show ?thesis
      using z(3)
      by (simp add: ranking_metrics_visited z(1) triples_in_range_concat c
            mean_of_equal_batches_hits [OF full] mean_of_equal_batches_mrr [OF full]
            batches_Nil_iff)
  qed
  show "map_sum id (\<lambda>a. (acc_mrr a, acc_hits a)) (ranking_metrics ?m tab mx (iterate ?ld'))
        = map_sum id (\<lambda>a. (acc_mrr a, acc_hits a)) (ranking_metrics ?m tab mx (iterate ld))"
  proof (cases "?bs = 0")
    case True
    then show ?thesis by (simp add: it it' batches.simps)
  next
    case False
    then have pos: "0 < ?bs" by simp
    from dvd len have dvd': "?bs dvd length ys" by simp
    have r: "triples_in_range ?m ys = triples_in_range ?m ?xs"
      using perm by (rule triples_in_range_perm)
    have e: "ys = [] \<longleftrightarrow> ?xs = []" using len by auto
    show ?thesis
      unfolding it it' metrics [OF v' dvd' pos] metrics [OF v dvd pos]
      using overall_perm [OF perm, where m = "?m" and tab = tab] r e by simp
  qed
qed

theorem eval_permutation_invariant_witness:
  "mset [(1, 1, 0), (0, 0, 0)] = mset (triples (dataset ld_two))
   \<and> batch_size ld_two dvd length (triples (dataset ld_two))
   \<and> eval_link_prediction ex_state
        (ld_two\<lparr>dataset := (dataset ld_two)\<lparr>triples := [(1, 1, 0), (0, 0, 0)]\<rparr>\<rparr>)
        1 ''valid'' None
     = eval_link_prediction ex_state ld_two 1 ''valid'' None"
proof -
  have p: "mset [(1, 1, 0), (0, 0, 0)] = mset (triples (dataset ld_two))"
    by (simp add: ld_two_def ex_dataset_def)
  have d: "batch_size ld_two dvd length (triples (dataset ld_two))"
    by (simp add: ld_two_def ex_dataset_def)
  have a: "case None of None \<Rightarrow> True | Some k \<Rightarrow> length (iterate ld_two) \<le> k"
    by simp
  from eval_permutation_invariant [OF p d a, of ex_state 1 "''valid''"] p d
  show ?thesis by simp
qed

text \<open>
  Claim C5 as stated fails: the same three triples in batches of two give an MRR of
  3/4 in one order and of 7/8 in another.
\<close>

theorem eval_permutation_counterexample:
  "mset (triples (dataset ld_three_perm)) = mset (triples (dataset ld_three))
   \<and> batch_size ld_three_perm = batch_size ld_three
   \<and> eval_link_prediction ex_state ld_three 1 ''valid'' None =
       Some (Inr (ex_state\<lparr>run_log :=
         [(''valid_valid_mrr'', 3 / 4, 1), (''valid_valid_hits@10'', 1, 1)]\<rparr>))
   \<and> eval_link_prediction ex_state ld_three_perm 1 ''valid'' None =
       Some (Inr (ex_state\<lparr>run_log :=
         [(''valid_valid_mrr'', 7 / 8, 1), (''valid_valid_hits@10'', 1, 1)]\<rparr>))"
  by (simp add: eval_link_prediction_unfold [OF build_ld_three]
        eval_link_prediction_unfold [OF build_ld_three_perm] ranking_metrics_visited
        iterate_ld_three iterate_ld_three_perm visited_def ex_in_range ex_overall
        run_log_ex_state)
     (simp add: ld_three_def ld_three_perm_def ex_dataset_def)

subsection \<open>C6\<close>

text \<open>
  Claim C6. For a positive batch size and an encoder that keeps its contract, on a
  text dataset the builder returns, and its writes are, in order, the slices
  \<open>[k * batch_size, min (k * batch_size + batch_size) num_entities)\<close>: they run
  through the entity IDs in ascending order, \<open>batch_size\<close> at a time (the last slice
  is cut at \<open>num_entities\<close>, as Python slicing does), they are pairwise disjoint, and
  together they are \<open>[0, num_entities)\<close>, every row once. On a dataset without text
  no table is built and \<open>None\<close> is passed to the scoring.
\<close>

theorem cache_builder_chunks:
  fixes m :: "('p, 'd) model" and ld :: "'d loader"
  assumes pos: "0 < batch_size ld" and ok: "encoder_ok m ld"
  shows "(is_text (dataset ld) \<longrightarrow>
           (\<exists>tab writes.
              build_ent_emb m ld = Some (Inr (Some tab, writes))
              \<and> concat (map snd writes) = [0..<num_entities m]
              \<and> (\<forall>k < length writes.
                    writes ! k = (k * batch_size ld,
                      [k * batch_size ld..<min (k * batch_size ld + batch_size ld) (num_entities m)]))
              \<and> (\<forall>i j. i < j \<and> j < length writes \<longrightarrow>
                    set (snd (writes ! i)) \<inter> set (snd (writes ! j)) = {})))
       \<and> (\<not> is_text (dataset ld) \<longrightarrow> build_ent_emb m ld = Some (Inr (None, [])))"
proof (intro conjI impI)
  let ?bs = "batch_size ld" and ?N = "num_entities m"
  let ?chunks = "batches ?bs [0..<?N]"
  let ?writes = "map (\<lambda>ids. (hd ids, ids)) ?chunks"
  assume tx: "is_text (dataset ld)"
  have nth: "?writes ! k = (k * ?bs, [k * ?bs..<min (k * ?bs + ?bs) ?N])"
    if k: "k < length ?writes" for k
  proof -
    from k have k': "k < length ?chunks" by simp
    have c: "?chunks ! k = [k * ?bs..<min (k * ?bs + ?bs) ?N]"
      using batches_upt_nth [OF pos k'] by simp
    have "?chunks ! k \<in> set ?chunks" using k' by simp
    with batches_nonempty [of ?bs "[0..<?N]"] have nz: "?chunks ! k \<noteq> []"
      by (simp add: list_all_iff)
    from nz have ne: "[k * ?bs..<min (k * ?bs + ?bs) ?N] \<noteq> []" unfolding c .
    have "k * ?bs < min (k * ?bs + ?bs) ?N"
    proof (rule ccontr)
      assume "\<not> k * ?bs < min (k * ?bs + ?bs) ?N"
      then have "min (k * ?bs + ?bs) ?N \<le> k * ?bs" by (simp only: not_less)
      then have "[k * ?bs..<min (k * ?bs + ?bs) ?N] = []" by (rule upt_conv_Nil)
      with ne show False by contradiction
    qed
    then have "hd [k * ?bs..<min (k * ?bs + ?bs) ?N] = k * ?bs" by (rule hd_upt)
    with c have "hd (?chunks ! k) = k * ?bs" by simp
    with c k' show ?thesis by simp
  qed
  have cover: "concat (map snd ?writes) = [0..<?N]"
    using concat_batches [OF pos, of "[0..<?N]"] by (simp add: o_def)
  have disj: "set (snd (?writes ! i)) \<inter> set (snd (?writes ! j)) = {}"
    if "i < j \<and> j < length ?writes" for i j
  proof -
    from that have "i < length ?writes" "j < length ?writes" "i < j" by simp_all
    with nth [of i] nth [of j] chunk_le [of i j ?bs] show ?thesis by auto
  qed
  from build_ent_emb_text [OF tx pos ok] nth cover disj
  show "\<exists>tab writes.
          build_ent_emb m ld = Some (Inr (Some tab, writes))
          \<and> concat (map snd writes) = [0..<?N]
          \<and> (\<forall>k < length writes.
                writes ! k = (k * ?bs, [k * ?bs..<min (k * ?bs + ?bs) ?N]))
          \<and> (\<forall>i j. i < j \<and> j < length writes \<longrightarrow>
                set (snd (writes ! i)) \<inter> set (snd (writes ! j)) = {})"
    by blast
next
  assume "\<not> is_text (dataset ld)"
  then show "build_ent_emb m ld = Some (Inr (None, []))"
    by (simp add: build_ent_emb_def)
qed

theorem cache_builder_chunks_witness:
  "0 < batch_size ld_text \<and> encoder_ok model_five ld_text \<and> is_text (dataset ld_text)
   \<and> build_ent_emb model_five ld_text =
       Some (Inr (Some [[0], [1], [2], [3], [4]], [(0, [0, 1]), (2, [2, 3]), (4, [4])]))
   \<and> concat (map snd [(0 :: nat, [0 :: nat, 1]), (2, [2, 3]), (4, [4])]) = [0..<num_entities model_five]"
proof -
  have p: "0 < batch_size ld_text" by (simp add: ld_text_def)
  have t: "is_text (dataset ld_text)" by (simp add: ld_text_def ex_dataset_def)
  have o: "encoder_ok model_five ld_text"
    by (simp add: encoder_ok_def model_five_def ex_model_def ld_text_def ex_dataset_def
          batches.simps eval_nat_numeral)
  from cache_builder_chunks [OF p o] t build_model_five p o show ?thesis by auto
qed

subsection \<open>C7\<close>

text \<open>
  Claim C7. The trace of the training loop is, entity by entity in ascending order,
  one call of the aligner, one \<open>backward\<close> per batch of one pass over the loader with
  no optimizer step in between, one optimizer step and one zeroing of the gradients.
  The gradients are zero at the end of every iteration, and the parameters after
  the loop are those obtained by stepping, for each entity in turn, on the sum of
  the gradients of that entity's pass only.
\<close>

theorem train_linker_accumulation:
  "trace (train_linker torch_empty summarizer tr ds ld p0)
     = concat (map (entity_events ld) [0..<num_ents ds])
   \<and> t_grads (train_linker torch_empty summarizer tr ds ld p0) = 0
   \<and> t_params (train_linker torch_empty summarizer tr ds ld p0)
     = fold (entity_update tr ds ld (get_entity_summaries torch_empty summarizer ds))
         [0..<num_ents ds] p0"
  by (simp add: train_linker_def Let_def entity_loop_result)

theorem train_linker_accumulation_witness:
  "trace (train_linker zero_memory summarizer_one int_trainer (ex_dataset [] True) int_loader 0)
     = [Align 0, Backward 0 0, Backward 0 1, Step 0, ZeroGrad 0,
        Align 1, Backward 1 0, Step 1, ZeroGrad 1]
   \<and> t_grads (train_linker zero_memory summarizer_one int_trainer (ex_dataset [] True) int_loader 0) = 0
   \<and> t_params (train_linker zero_memory summarizer_one int_trainer (ex_dataset [] True) int_loader 0)
     = - 13"
  using train_linker_accumulation
    [of zero_memory summarizer_one int_trainer "ex_dataset [] True" int_loader 0]
  by (simp add: entity_events_def entity_update_def int_trainer_def int_loader_def
        ex_dataset_def upt_two)

subsection \<open>C8\<close>



subsection \<open>C9\<close>

text \<open>
  Claim C9. \<open>get_retry\<close> never raises a connection error. When the first \<open>k\<close>
  attempts raise one and the next attempt returns a response, it returns that
  response, after \<open>k\<close> sleeps of the fixed delay; when that attempt raises another
  exception, this exception is raised, since only connection errors are caught. When
  every attempt raises a connection error, it never returns.
\<close>

theorem get_retry_first_answer:
  "get_retry net req delay n slept \<noteq> Some (Inl ConnectionError)
   \<and> ((\<forall>j<k. net (n + j) req = ConnError) \<and> net (n + k) req = Response r \<longrightarrow>
        get_retry net req delay n slept = Some (Inr (r, n + k + 1, slept + k * delay)))
   \<and> ((\<forall>j<k. net (n + j) req = ConnError) \<and> net (n + k) req = OtherError \<longrightarrow>
        get_retry net req delay n slept = Some (Inl RequestError))
   \<and> ((\<forall>j. net (n + j) req = ConnError) \<longrightarrow> get_retry net req delay n slept = None)"
proof (intro conjI impI)
  show "get_retry net req delay n slept \<noteq> Some (Inl ConnectionError)"
    using get_retry_Some [of net req delay n slept "Inl ConnectionError"] by blast
next
  assume a: "(\<forall>j<k. net (n + j) req = ConnError) \<and> net (n + k) req = Response r"
  then have "get_retry net req delay n slept = get_retry net req delay (n + k) (slept + k * delay)"
    by (intro get_retry_skip) simp
  also from a have "\<dots> = Some (Inr (r, n + k + 1, slept + k * delay))"
    by (subst get_retry.simps) simp
  finally show "get_retry net req delay n slept = Some (Inr (r, n + k + 1, slept + k * delay))" .
next
  assume a: "(\<forall>j<k. net (n + j) req = ConnError) \<and> net (n + k) req = OtherError"
  then have "get_retry net req delay n slept = get_retry net req delay (n + k) (slept + k * delay)"
    by (intro get_retry_skip) simp
  also from a have "\<dots> = Some (Inl RequestError)"
    by (subst get_retry.simps) simp
  finally show "get_retry net req delay n slept = Some (Inl RequestError)" .
next
  assume a: "\<forall>j. net (n + j) req = ConnError"
  show "get_retry net req delay n slept = None"
  proof (cases "get_retry net req delay n slept")
    case None
    then show ?thesis .
  next
    case (Some y)
    from get_retry_Some [OF Some] a show ?thesis by blast
  qed
qed

theorem get_retry_first_answer_witness:
  "net_flaky 0 (Wikidata ''Q1'') = ConnError
   \<and> net_flaky 1 (Wikidata ''Q1'') = ConnError
   \<and> net_flaky 2 (Wikidata ''Q1'') = Response body_empty
   \<and> get_retry net_flaky (Wikidata ''Q1'') 5 0 0 = Some (Inr (body_empty, 3, 10))"
proof -
  have a: "\<forall>j<2. net_flaky (0 + j) (Wikidata ''Q1'') = ConnError"
    by (simp add: net_flaky_def)
  have b: "net_flaky (0 + 2) (Wikidata ''Q1'') = Response body_empty"
    by (simp add: net_flaky_def)
  from get_retry_first_answer [of net_flaky "Wikidata ''Q1''" 5 0 0 2 body_empty] a b
  show ?thesis by (simp add: net_flaky_def)
qed

subsection \<open>C10\<close>

text \<open>
  Claim C10. \<open>retrieve_pages\<close> returns with the state \<open>st\<close> exactly when the
  network answers every chunk and \<open>st\<close> is what its answers determine
  (\<open>run_outcome\<close>): each Wikidata and Wikipedia request is answered after finitely
  many connection errors, each continuation request is answered, until a body asks for
  none, and the bodies hold the keys the script indexes. For each chunk in turn, an
  entity for which a description is found (the title of its page, followed through the
  redirects of the first body, has an extract among the pages of the first body and
  of the continuation bodies) has one record \<open><entity_id> <title>: <text>\<close> in the
  descriptions file, with that title and that text, its newlines replaced; every other
  entity of the chunk, without a page or without a text, has one bare line in the
  no-wiki file. When \<open>retrieve_pages\<close> returns, the entities of the records and of
  the bare lines are, counted with multiplicity, exactly the entities read from the
  input, so that each is written once, to one of the two files, and the two counters
  add up to the number of input entities; no text holds a newline, and a record whose
  entity and title hold none has its only newline at its end.
\<close>

theorem retrieve_pages_partition:
  "(retrieve_pages net file_lines = Some (Inr st) \<longleftrightarrow>
      run_outcome net (batches MAX_ENTITIES (map rstrip_newline file_lines))
        \<lparr>out_file = [], no_wifi_file = [], fetched_count = 0, no_wiki_count = 0, calls = 0\<rparr> st)
   \<and> (retrieve_pages net file_lines = Some (Inr st) \<longrightarrow>
      fetched_count st + no_wiki_count st = length file_lines
      \<and> (\<exists>recs missing.
            out_file st = map (\<lambda>(e, t, x). record_line e t x) recs
            \<and> no_wifi_file st = map (\<lambda>e. e @ [newline]) missing
            \<and> fetched_count st = length recs
            \<and> no_wiki_count st = length missing
            \<and> mset (map fst recs) + mset missing = mset (map rstrip_newline file_lines)
            \<and> list_all (\<lambda>(e, t, x). newline \<notin> set x
                   \<and> (newline \<notin> set e \<and> newline \<notin> set t \<longrightarrow>
                        newline \<notin> set (butlast (record_line e t x)))) recs))"
proof (intro conjI impI)
  show "retrieve_pages net file_lines = Some (Inr st) \<longleftrightarrow>
      run_outcome net (batches MAX_ENTITIES (map rstrip_newline file_lines))
        \<lparr>out_file = [], no_wifi_file = [], fetched_count = 0, no_wiki_count = 0, calls = 0\<rparr> st"
    by (simp add: retrieve_pages_def Let_def chunk_loop_iff)
next
  assume run: "retrieve_pages net file_lines = Some (Inr st)"
  let ?ents = "map rstrip_newline file_lines"
  let ?st0 = "\<lparr>out_file = [], no_wifi_file = [], fetched_count = 0, no_wiki_count = 0, calls = 0\<rparr>"
  have "fetch_inv [] [] ?st0" by (simp add: fetch_inv_def)
  moreover from run have "chunk_loop net (batches MAX_ENTITIES ?ents) ?st0 = Some (Inr st)"
    by (simp add: retrieve_pages_def Let_def)
  ultimately have "fetch_inv ([] @ concat (batches MAX_ENTITIES ?ents)) [] st"
    by (rule chunk_loop_inv)
  then have "fetch_inv ?ents [] st"
    by (simp add: concat_batches MAX_ENTITIES_def)
  then obtain recs missing where r:
    "out_file st = map (\<lambda>(e, t, x). record_line e t x) recs"
    "no_wifi_file st = map (\<lambda>e. e @ [newline]) missing"
    "fetched_count st = length recs" "no_wiki_count st = length missing"
    "mset (map fst recs) + mset missing = mset ?ents"
    "list_all (\<lambda>(e, t, x). newline \<notin> set x) recs"
    unfolding fetch_inv_def by auto
  from r(5) have "size (mset (map fst recs) + mset missing) = size (mset ?ents)" by simp
  then have n: "length recs + length missing = length file_lines" by simp
  from r(6) have l: "list_all (\<lambda>(e, t, x). newline \<notin> set x
                  \<and> (newline \<notin> set e \<and> newline \<notin> set t \<longrightarrow>
                       newline \<notin> set (butlast (record_line e t x)))) recs"
    by (auto simp: list_all_iff record_line_single)
  from r(3,4) n show "fetched_count st + no_wiki_count st = length file_lines" by simp
  from r l show "\<exists>recs missing.
            out_file st = map (\<lambda>(e, t, x). record_line e t x) recs
            \<and> no_wifi_file st = map (\<lambda>e. e @ [newline]) missing
            \<and> fetched_count st = length recs
            \<and> no_wiki_count st = length missing
            \<and> mset (map fst recs) + mset missing = mset (map rstrip_newline file_lines)
            \<and> list_all (\<lambda>(e, t, x). newline \<notin> set x
                   \<and> (newline \<notin> set e \<and> newline \<notin> set t \<longrightarrow>
                        newline \<notin> set (butlast (record_line e t x)))) recs"
    by blast
qed

theorem retrieve_pages_partition_witness:
  "retrieve_pages net_wiki four_lines = Some (Inr fetched_four)
   \<and> run_outcome net_wiki (batches MAX_ENTITIES (map rstrip_newline four_lines))
        \<lparr>out_file = [], no_wifi_file = [], fetched_count = 0, no_wiki_count = 0, calls = 0\<rparr>
        fetched_four
   \<and> fetched_count fetched_four + no_wiki_count fetched_four = length four_lines
   \<and> net_wiki 1 (Wikipedia ''A|C|D'') = ConnError
   \<and> continue wp_body = Some ()
   \<and> description (the (entities wd_body)) wp_query all_pages_four ''Q1'' = Some (''B'', ''x y'')
   \<and> description (the (entities wd_body)) wp_query all_pages_four ''Q2'' = None
   \<and> description (the (entities wd_body)) wp_query all_pages_four ''Q3'' = Some (''C'', ''z'')
   \<and> description (the (entities wd_body)) wp_query all_pages_four ''Q4'' = None"
proof -
  have d: "description (the (entities wd_body)) wp_query all_pages_four ''Q1''
             = Some (''B'', ''x y'')"
    "description (the (entities wd_body)) wp_query all_pages_four ''Q2'' = None"
    "description (the (entities wd_body)) wp_query all_pages_four ''Q3'' = Some (''C'', ''z'')"
    "description (the (entities wd_body)) wp_query all_pages_four ''Q4'' = None"
    by (simp_all add: description_def enwiki_title_def wd_body_def wp_query_def
          all_pages_four_def redirect_target_def redirect_map_def page_text_def
          replace_newlines_def newline_def)
  have n: "net_wiki 1 (Wikipedia ''A|C|D'') = ConnError" "continue wp_body = Some ()"
    by (simp_all add: net_wiki_def wp_body_def)
  from retrieve_pages_partition [of net_wiki four_lines fetched_four] retrieve_four
  have "run_outcome net_wiki (batches MAX_ENTITIES (map rstrip_newline four_lines))
        \<lparr>out_file = [], no_wifi_file = [], fetched_count = 0, no_wiki_count = 0, calls = 0\<rparr>
        fetched_four"
    and "fetched_count fetched_four + no_wiki_count fetched_four = length four_lines"
    by blast+
  with retrieve_four d n show ?thesis by blast
qed

end
